theory Spec2Isabelle
  imports Main "HOL-Library.AList"
begin

section \<open>The PhotoSwipe lightbox: data model\<close>

text \<open>
  The development embeds \<^verbatim>\<open>src/js/lightbox/lightbox.js\<close>: the class
  \<^verbatim>\<open>PhotoSwipeLightbox\<close> with its click handler, its index resolution, the
  loading of the viewer's resources and the function that opens the viewer.

  JavaScript names that start with an underscore lose it here (\<^verbatim>\<open>_uid\<close> is
  \<open>uid\<close>, \<^verbatim>\<open>_openPhotoswipe\<close> is \<open>openPhotoswipe\<close>), and \<^verbatim>\<open>this\<close> is the
  field \<open>self\<close> of the world. A value that the code only tests for truthiness is a
  \<open>bool\<close> or an \<open>option\<close> (\<open>None\<close> for \<^verbatim>\<open>undefined\<close> and \<^verbatim>\<open>null\<close>); a string
  tested for truthiness is falsy when it is empty.

  The counter \<^verbatim>\<open>_uid\<close> is a \<open>nat\<close>: it starts at 0 and the only write is
  \<^verbatim>\<open>++this._uid\<close>, which is exact on JavaScript numbers below \<open>2^53\<close>.
\<close>

type_synonym element = nat

datatype point = Point (px: "int option") (py: "int option")

text \<open>A plugin reference: a class, or the path of a module that exports one.\<close>

datatype plugin_ref = PluginClass nat | PluginPath string

text \<open>
  What the acquisition of the main module resolves to: a module namespace object
  (\<^verbatim>\<open>typeof module === "object"\<close>) whose \<^verbatim>\<open>default\<close> export may be missing, the
  constructor itself, or a value that is neither.
\<close>

datatype js_module = ModuleNamespace "nat option" | ModuleFunction nat | ModuleOther

text \<open>
  The option \<^verbatim>\<open>pswpModule\<close> (the path of the module, or the module itself), and a data
  source: the object \<^verbatim>\<open>{ gallery: element }\<close> that the click handler builds, or an array
  of slides. Both are objects, hence truthy.
\<close>

datatype module_ref = ModulePath string | ModuleValue js_module

datatype data_source = GalleryElement element | SlideArray "string list"

text \<open>
  The values a settled acquisition resolves to: the main module, an object with the
  properties \<^verbatim>\<open>pluginKey\<close> and \<^verbatim>\<open>moduleClass\<close>, or anything else (a loaded
  stylesheet, \<^verbatim>\<open>undefined\<close>).
\<close>

datatype item = ItemModule js_module | ItemPlugin string "plugin_ref option" | ItemOther

datatype outcome = Fulfilled item | Rejected

text \<open>
  The asynchronous operations the lightbox starts: \<^verbatim>\<open>dynamicImportModule\<close>,
  \<^verbatim>\<open>dynamicImportPlugin\<close>, \<^verbatim>\<open>options.openPromise()\<close>, \<^verbatim>\<open>lazyLoadSlide\<close> and
  \<^verbatim>\<open>loadCSS\<close>.
\<close>

datatype async_op =
    DynamicImportModule "module_ref option"
  | DynamicImportPlugin string plugin_ref
  | OpenPromise nat
  | LazyLoadSlide int
  | LoadCSS string

text \<open>
  The click event: the properties the handler reads, and the modifier flags that
  \<^verbatim>\<open>specialKeyUsed\<close> is given with it.
\<close>

record click_event =
  target :: element
  currentTarget :: element
  clientX :: "int option"
  clientY :: "int option"
  ctrlKey :: bool
  metaKey :: bool
  altKey :: bool
  shiftKey :: bool

record options =
  gallerySelector :: "string option"
  childSelector :: "string option"
  getClickedIndexFn :: "(click_event \<Rightarrow> int option) option"
  pswpModule :: "module_ref option"
  pswpCSS :: "string option"
  openPromise :: "nat option"
  preloadFirstSlide :: "bool option"
  index :: "int option"
  initialPointerPos :: "point option"
  dataSource :: "data_source option"

text \<open>
  The instance. \<open>listeners\<close> is the table \<^verbatim>\<open>_listeners\<close> of the base class (event
  name to the functions registered for it); \<^verbatim>\<open>destroy\<close> sets it to \<^verbatim>\<open>null\<close>.
  \<open>pswp\<close> and the global \<^verbatim>\<open>window.pswp\<close> hold a reference to a viewer, here its
  position in the list of the viewers constructed so far.
\<close>

record lightbox =
  options :: options
  additionalDynamicCSS :: "string list"
  pluginClasses :: "(string \<times> plugin_ref) list"
  uid :: nat
  shouldOpen :: bool
  pswp :: "nat option"
  listeners :: "(string \<times> nat list) list option"

text \<open>
  A viewer is an object of the PhotoSwipe core, which is not part of this file. The model
  keeps what the lightbox does to it: the constructor, the options as they are when
  \<^verbatim>\<open>new\<close> is called with them, the value of its property \<^verbatim>\<open>pluginClasses\<close>, the
  handlers registered with \<^verbatim>\<open>pswp.on\<close>, whether \<^verbatim>\<open>init\<close> and \<^verbatim>\<open>close\<close> were
  called, and whether it has emitted \<^verbatim>\<open>destroy\<close>.

  \<^verbatim>\<open>pswp.pluginClasses = this._pluginClasses\<close> (line 214) stores the registry object of
  the instance itself, not a copy of it. The constructor creates that object and no
  method replaces it, they write into it. So the property is a reference, and what the
  viewer finds there is the registry as it is at that moment: \<open>viewerPluginClasses\<close>,
  defined with the world below.
\<close>

datatype handler = Forwarded nat | ClearPublic

datatype registry_ref = InstanceRegistry

record viewer =
  constructedBy :: nat
  viewerOptions :: options
  pluginClassesRef :: "registry_ref option"
  handlers :: "(string \<times> handler) list"
  initialised :: bool
  closeRequested :: bool
  destroyed :: bool

text \<open>
  A join is one \<^verbatim>\<open>Promise.all(promiseArray).then(...)\<close> registered by \<^verbatim>\<open>preload\<close>:
  the token its callback captured, the operations it awaits, and whether it has settled.
\<close>

record join =
  token :: nat
  promiseArray :: "async_op list"
  settled :: bool

text \<open>
  The world: the instance, the global \<^verbatim>\<open>window.pswp\<close>, \<^verbatim>\<open>window.navigator.onLine\<close>,
  the viewers constructed so far, the joins registered so far, in the order of their
  registration, and the asynchronous operations started so far, in the order of the calls.
\<close>

record world =
  self :: lightbox
  window_pswp :: "nat option"
  onLine :: "bool option"
  viewers :: "viewer list"
  joins :: "join list"
  started :: "async_op list"

text \<open>
  The plugin classes of the viewer \<open>v\<close>: the registry that its property refers to, read
  in the world \<open>w\<close>.
\<close>

definition viewerPluginClasses :: "world \<Rightarrow> nat \<Rightarrow> (string \<times> plugin_ref) list option" where
  "viewerPluginClasses w v =
     (if v < length (viewers w)
      then (case pluginClassesRef (viewers w ! v) of
              None \<Rightarrow> None
            | Some InstanceRegistry \<Rightarrow> Some (pluginClasses (self w)))
      else None)"

text \<open>
  The functions of the browser and of \<^verbatim>\<open>util.js\<close> that the handler calls:
  \<^verbatim>\<open>specialKeyUsed(e)\<close>, \<^verbatim>\<open>element.closest(selector)\<close> and
  \<^verbatim>\<open>element.querySelectorAll(selector)\<close>.
\<close>

record env =
  specialKeyUsed :: "click_event \<Rightarrow> bool"
  closest :: "element \<Rightarrow> string \<Rightarrow> element option"
  querySelectorAll :: "element \<Rightarrow> string \<Rightarrow> element list"

section \<open>The methods\<close>

definition truthy :: "string option \<Rightarrow> bool" where
  "truthy s = (case s of None \<Rightarrow> False | Some t \<Rightarrow> t \<noteq> [])"

definition truthy_num :: "int option \<Rightarrow> bool" where
  "truthy_num n = (case n of None \<Rightarrow> False | Some k \<Rightarrow> k \<noteq> 0)"

definition truthy_ref :: "plugin_ref option \<Rightarrow> bool" where
  "truthy_ref r = (case r of None \<Rightarrow> False | Some (PluginClass c) \<Rightarrow> True
                   | Some (PluginPath p) \<Rightarrow> p \<noteq> [])"

text \<open>The selector or stylesheet that a truthy option holds.\<close>

definition configured :: "string option \<Rightarrow> string option" where
  "configured s = (if truthy s then s else None)"

text \<open>
  The constructor of the class, on a page where no viewer is open. \<open>ls\<close> is the table
  of listeners of the base class (\<^verbatim>\<open>base.js\<close>, whose constructor and \<^verbatim>\<open>on\<close> method
  are not in this file). \<^verbatim>\<open>shouldOpen\<close> and \<^verbatim>\<open>pswp\<close> are not assigned: they are
  \<^verbatim>\<open>undefined\<close>.
\<close>

definition constructor ::
  "options \<Rightarrow> (string \<times> nat list) list \<Rightarrow> bool option \<Rightarrow> world" where
  "constructor opts ls online =
     \<lparr> self = \<lparr> options = opts, additionalDynamicCSS = [], pluginClasses = [], uid = 0,
                shouldOpen = False, pswp = None, listeners = Some ls \<rparr>,
       window_pswp = None, onLine = online, viewers = [], joins = [], started = [] \<rparr>"

text \<open>
  The loop of \<^verbatim>\<open>getClickedIndex\<close>:
  \<^verbatim>\<open>for (let i = 0; i < childElements.length; i++) if (clickedChild === childElements[i]) return i;\<close>
\<close>

fun indexOfChild :: "element \<Rightarrow> element list \<Rightarrow> nat \<Rightarrow> nat option" where
  "indexOfChild clickedChild [] i = None"
| "indexOfChild clickedChild (c # cs) i =
     (if clickedChild = c then Some i else indexOfChild clickedChild cs (Suc i))"

text \<open>
  \<^verbatim>\<open>getClickedIndex\<close> (lines 84 to 107). The function of the option
  \<^verbatim>\<open>getClickedIndexFn\<close> is called with the instance as \<^verbatim>\<open>this\<close> and the event; here
  it is a function of the event. The last \<open>None\<close> of the second branch is the end of the
  function, reached without a \<^verbatim>\<open>return\<close>.
\<close>

definition getClickedIndex :: "env \<Rightarrow> click_event \<Rightarrow> lightbox \<Rightarrow> int option" where
  "getClickedIndex ev e lb =
     (case getClickedIndexFn (options lb) of
        Some f \<Rightarrow> f e
      | None \<Rightarrow>
          (case configured (childSelector (options lb)) of
             Some sel \<Rightarrow>
               (let clickedChild = closest ev (target e) sel;
                    childElements = querySelectorAll ev (currentTarget e) sel
                in case clickedChild of
                     None \<Rightarrow> None
                   | Some c \<Rightarrow> map_option int (indexOfChild c childElements 0))
           | None \<Rightarrow> Some 0))"

text \<open>
  \<^verbatim>\<open>preload\<close> (lines 138 to 190): the operations are started in the order of the
  source; all but \<^verbatim>\<open>lazyLoadSlide\<close> are pushed on \<^verbatim>\<open>promiseArray\<close>. Then
  \<^verbatim>\<open>const uid = ++this._uid\<close>, and the join is registered with that token. The
  registry \<^verbatim>\<open>_pluginClasses\<close> is an association list in the order of insertion, which
  is the order of \<^verbatim>\<open>Object.keys\<close> for names that are not numbers.
\<close>

definition pluginOps :: "lightbox \<Rightarrow> async_op list" where
  "pluginOps lb = map (\<lambda>(pluginKey, r). DynamicImportPlugin pluginKey r) (pluginClasses lb)"

definition openPromiseOps :: "options \<Rightarrow> async_op list" where
  "openPromiseOps opts = (case openPromise opts of None \<Rightarrow> [] | Some f \<Rightarrow> [OpenPromise f])"

definition lazyLoadOps :: "options \<Rightarrow> int \<Rightarrow> async_op list" where
  "lazyLoadOps opts i =
     (if preloadFirstSlide opts \<noteq> Some False \<and> 0 \<le> i then [LazyLoadSlide i] else [])"

definition cssOps :: "lightbox \<Rightarrow> async_op list" where
  "cssOps lb =
     (case configured (pswpCSS (options lb)) of None \<Rightarrow> [] | Some href \<Rightarrow> [LoadCSS href])
     @ map LoadCSS (additionalDynamicCSS lb)"

definition setDataSource :: "data_source option \<Rightarrow> lightbox \<Rightarrow> lightbox" where
  "setDataSource ds lb =
     (case ds of None \<Rightarrow> lb
      | Some d \<Rightarrow> lb\<lparr>options := (options lb)\<lparr>dataSource := Some d\<rparr>\<rparr>)"

definition preload :: "int \<Rightarrow> data_source option \<Rightarrow> world \<Rightarrow> world" where
  "preload i ds w =
     (let lb = setDataSource ds (self w);
          awaited1 = DynamicImportModule (pswpModule (options lb)) # pluginOps lb
                       @ openPromiseOps (options lb);
          awaited2 = cssOps lb;
          t = Suc (uid lb)
      in w\<lparr> self := lb\<lparr>uid := t\<rparr>,
            started := started w @ awaited1 @ lazyLoadOps (options lb) i @ awaited2,
            joins := joins w @ [\<lparr>token = t, promiseArray = awaited1 @ awaited2, settled = False\<rparr>] \<rparr>)"

text \<open>\<^verbatim>\<open>loadAndOpen\<close> (lines 116 to 131).\<close>

definition loadAndOpen ::
  "int \<Rightarrow> data_source option \<Rightarrow> point option \<Rightarrow> world \<Rightarrow> bool \<times> world" where
  "loadAndOpen i ds initialPoint w =
     (if window_pswp w \<noteq> None then (False, w)
      else
        let lb = self w;
            lb1 = lb\<lparr>options := (options lb)\<lparr>index := Some i\<rparr>\<rparr>;
            lb2 = lb1\<lparr>options := (options lb1)\<lparr>initialPointerPos := initialPoint\<rparr>\<rparr>;
            lb3 = lb2\<lparr>shouldOpen := True\<rparr>
        in (True, preload i ds (w\<lparr>self := lb3\<rparr>)))"

text \<open>
  \<^verbatim>\<open>onThumbnailsClick\<close> (lines 47 to 77) returns the world and whether
  \<^verbatim>\<open>e.preventDefault()\<close> was called. \<^verbatim>\<open>clickedIndex >= 0\<close> is false for
  \<^verbatim>\<open>undefined\<close>. The index is a number or \<^verbatim>\<open>undefined\<close>, which is what the two
  branches of \<^verbatim>\<open>getClickedIndex\<close> of this file return; a function of the option
  \<^verbatim>\<open>getClickedIndexFn\<close> that returns \<^verbatim>\<open>null\<close>, for which \<^verbatim>\<open>null >= 0\<close> is true and
  the load would start with the index \<^verbatim>\<open>null\<close>, is not covered by the type.
\<close>

definition initialPointOf :: "click_event \<Rightarrow> point option" where
  "initialPointOf e =
     (if \<not> truthy_num (clientX e) \<and> \<not> truthy_num (clientY e) then None
      else Some (Point (clientX e) (clientY e)))"

definition onThumbnailsClick :: "env \<Rightarrow> click_event \<Rightarrow> world \<Rightarrow> world \<times> bool" where
  "onThumbnailsClick ev e w =
     (if specialKeyUsed ev e \<or> window_pswp w \<noteq> None \<or> onLine w = Some False then (w, False)
      else
        let initialPoint = initialPointOf e;
            clickedIndex = getClickedIndex ev e (self w);
            ds = GalleryElement (currentTarget e)
        in case clickedIndex of
             None \<Rightarrow> (w, False)
           | Some i \<Rightarrow>
               if 0 \<le> i then (snd (loadAndOpen i (Some ds) initialPoint w), True)
               else (w, False))"

text \<open>
  \<^verbatim>\<open>_openPhotoswipe\<close> (lines 192 to 233). The result says how the call ended: the first \<^verbatim>\<open>return\<close>,
  the second one, a \<^verbatim>\<open>TypeError\<close> (from \<^verbatim>\<open>new\<close> on a value that is not a
  constructor, or from \<^verbatim>\<open>Object.keys(null)\<close> after \<^verbatim>\<open>destroy\<close>), or the end of
  the function with the viewer it has constructed. The writes made before a
  \<^verbatim>\<open>TypeError\<close> stay.
\<close>

datatype gate_result = Cancelled | AlreadyOpen | Threw | Opened nat

text \<open>
  The operand of \<^verbatim>\<open>new\<close>: \<^verbatim>\<open>module.default\<close> when \<^verbatim>\<open>typeof module === "object"\<close>,
  otherwise \<^verbatim>\<open>module\<close>; \<open>None\<close> when it is not a constructor.
\<close>

definition constructorOf :: "js_module \<Rightarrow> nat option" where
  "constructorOf m =
     (case m of ModuleNamespace d \<Rightarrow> d | ModuleFunction c \<Rightarrow> Some c | ModuleOther \<Rightarrow> None)"

text \<open>The handlers that the two nested \<^verbatim>\<open>forEach\<close> loops register with \<^verbatim>\<open>pswp.on\<close>.\<close>

definition replayed :: "(string \<times> nat list) list \<Rightarrow> (string \<times> handler) list" where
  "replayed ls = concat (map (\<lambda>(name, fns). map (\<lambda>fn. (name, Forwarded fn)) fns) ls)"

text \<open>
  \<^verbatim>\<open>new module.default(null, this.options)\<close> and, on the next line,
  \<^verbatim>\<open>pswp.pluginClasses = this._pluginClasses\<close>.
\<close>

definition newViewer :: "nat \<Rightarrow> lightbox \<Rightarrow> viewer" where
  "newViewer c lb =
     \<lparr> constructedBy = c, viewerOptions = options lb, pluginClassesRef = Some InstanceRegistry,
       handlers = [], initialised = False, closeRequested = False, destroyed = False \<rparr>"

definition openPhotoswipe :: "js_module \<Rightarrow> nat \<Rightarrow> world \<Rightarrow> gate_result \<times> world" where
  "openPhotoswipe mainModule t w =
     (if t \<noteq> uid (self w) \<and> shouldOpen (self w) then (Cancelled, w)
      else
        let w1 = w\<lparr>self := (self w)\<lparr>shouldOpen := False\<rparr>\<rparr>
        in if window_pswp w1 \<noteq> None then (AlreadyOpen, w1)
           else
             case constructorOf mainModule of
               None \<Rightarrow> (Threw, w1)
             | Some c \<Rightarrow>
                 let v = length (viewers w1);
                     new = newViewer c (self w1);
                     w2 = w1\<lparr> viewers := viewers w1 @ [new],
                              self := (self w1)\<lparr>pswp := Some v\<rparr>,
                              window_pswp := Some v \<rparr>
                 in case listeners (self w2) of
                      None \<Rightarrow> (Threw, w2)
                    | Some ls \<Rightarrow>
                        (Opened v,
                         w2\<lparr> viewers := list_update (viewers w2) v
                                (new\<lparr> handlers := replayed ls @ [(''destroy'', ClearPublic)],
                                      initialised := True \<rparr>) \<rparr>))"

text \<open>
  The callback that \<^verbatim>\<open>preload\<close> passes to \<^verbatim>\<open>then\<close>. \<^verbatim>\<open>iterableModules[0]\<close> is the
  main module; an object at that place that is not a module has no \<^verbatim>\<open>default\<close>
  constructor.
\<close>

definition mergeItem :: "lightbox \<Rightarrow> item \<Rightarrow> lightbox" where
  "mergeItem lb it =
     (case it of
        ItemPlugin pluginKey moduleClass \<Rightarrow>
          (case moduleClass of
             None \<Rightarrow> lb
           | Some r \<Rightarrow>
               if pluginKey \<noteq> [] \<and> truthy_ref (Some r)
               then lb\<lparr>pluginClasses := AList.update pluginKey r (pluginClasses lb)\<rparr>
               else lb)
      | _ \<Rightarrow> lb)"

definition mainModuleOf :: "item list \<Rightarrow> js_module" where
  "mainModuleOf iterableModules =
     (case iterableModules of
        ItemModule m # _ \<Rightarrow> m
      | ItemPlugin _ _ # _ \<Rightarrow> ModuleNamespace None
      | _ \<Rightarrow> ModuleOther)"

definition thenCallback :: "nat \<Rightarrow> item list \<Rightarrow> world \<Rightarrow> world" where
  "thenCallback t iterableModules w =
     (let w1 = w\<lparr>self := foldl mergeItem (self w) iterableModules\<rparr>
      in if shouldOpen (self w1)
         then snd (openPhotoswipe (mainModuleOf iterableModules) t w1)
         else w1)"

definition addPlugin :: "string \<Rightarrow> plugin_ref \<Rightarrow> world \<Rightarrow> world" where
  "addPlugin name pluginClass w =
     w\<lparr>self := (self w)\<lparr>pluginClasses := AList.update name pluginClass (pluginClasses (self w))\<rparr>\<rparr>"

definition addCSS :: "string \<Rightarrow> world \<Rightarrow> world" where
  "addCSS href w =
     w\<lparr>self := (self w)\<lparr>additionalDynamicCSS := additionalDynamicCSS (self w) @ [href]\<rparr>\<rparr>"

text \<open>
  \<^verbatim>\<open>destroy\<close>. The removal of the click listeners needs no state here: an event
  \<open>Click\<close> of the system below is a call of the handler.
\<close>

definition requestClose :: "nat \<Rightarrow> viewer list \<Rightarrow> viewer list" where
  "requestClose v vs =
     (if v < length vs then list_update vs v ((vs ! v)\<lparr>closeRequested := True\<rparr>) else vs)"

definition destroy :: "world \<Rightarrow> world" where
  "destroy w =
     (let w1 = (case pswp (self w) of None \<Rightarrow> w
                | Some v \<Rightarrow> w\<lparr>viewers := requestClose v (viewers w)\<rparr>)
      in w1\<lparr>self := (self w1)\<lparr>shouldOpen := False, listeners := None\<rparr>\<rparr>)"

section \<open>The system: calls, settled joins and the viewer's notification\<close>

text \<open>
  \<^verbatim>\<open>Promise.all\<close>: the array of the values when every promise is fulfilled, a rejection
  when one is rejected. The callback of \<^verbatim>\<open>then\<close> runs in the first case only; the
  source registers no handler for the second.
\<close>

fun promiseAll :: "outcome list \<Rightarrow> item list option" where
  "promiseAll [] = Some []"
| "promiseAll (Rejected # os) = None"
| "promiseAll (Fulfilled it # os) = map_option ((#) it) (promiseAll os)"

text \<open>
  The join \<open>k\<close> settles, its promises with the outcomes \<open>outs\<close>. A join settles once,
  and with one outcome for each promise of its array.
\<close>

definition settle :: "nat \<Rightarrow> outcome list \<Rightarrow> world \<Rightarrow> world" where
  "settle k outs w =
     (if k < length (joins w) \<and> \<not> settled (joins w ! k)
         \<and> length outs = length (promiseArray (joins w ! k))
      then
        let j = joins w ! k;
            w1 = w\<lparr>joins := list_update (joins w) k (j\<lparr>settled := True\<rparr>)\<rparr>
        in case promiseAll outs of
             None \<Rightarrow> w1
           | Some iterableModules \<Rightarrow> thenCallback (token j) iterableModules w1
      else w)"

text \<open>
  The viewer \<open>v\<close> emits \<^verbatim>\<open>destroy\<close>. The viewer is an object of the PhotoSwipe core;
  by its interface it emits the notification once in a lifetime that starts with
  \<^verbatim>\<open>init\<close>, so the event is taken for a viewer whose \<^verbatim>\<open>init\<close> was called and that
  has not emitted it. Its handlers for that event run in the order of their
  registration: the one that \<^verbatim>\<open>_openPhotoswipe\<close> registers clears \<^verbatim>\<open>this.pswp\<close> and
  \<^verbatim>\<open>window.pswp\<close>; a forwarded listener is a function of the page and does nothing to
  the lightbox.
\<close>

definition runHandler :: "world \<Rightarrow> handler \<Rightarrow> world" where
  "runHandler w h =
     (case h of
        Forwarded fn \<Rightarrow> w
      | ClearPublic \<Rightarrow> w\<lparr>self := (self w)\<lparr>pswp := None\<rparr>, window_pswp := None\<rparr>)"

definition handlersFor :: "string \<Rightarrow> viewer \<Rightarrow> handler list" where
  "handlersFor name v = map snd (filter (\<lambda>(n, h). n = name) (handlers v))"

definition emitDestroy :: "nat \<Rightarrow> world \<Rightarrow> world" where
  "emitDestroy v w =
     (if v < length (viewers w) \<and> initialised (viewers w ! v) \<and> \<not> destroyed (viewers w ! v)
      then
        let w1 = w\<lparr>viewers := list_update (viewers w) v ((viewers w ! v)\<lparr>destroyed := True\<rparr>)\<rparr>
        in foldl runHandler w1 (handlersFor ''destroy'' (viewers w ! v))
      else w)"

text \<open>
  The events of the system: the click handler runs on an event of the page, the page
  calls a method of the instance, a join settles, or a viewer emits \<^verbatim>\<open>destroy\<close>.
  (\<^verbatim>\<open>init\<close> only registers the click handler.)
\<close>

datatype event =
    Click click_event
  | CallLoadAndOpen int "data_source option" "point option"
  | CallPreload int "data_source option"
  | CallAddPlugin string plugin_ref
  | CallAddCSS string
  | CallDestroy
  | JoinSettles nat "outcome list"
  | ViewerDestroys nat

fun step :: "env \<Rightarrow> world \<Rightarrow> event \<Rightarrow> world" where
  "step ev w (Click e) = fst (onThumbnailsClick ev e w)"
| "step ev w (CallLoadAndOpen i ds p) = snd (loadAndOpen i ds p w)"
| "step ev w (CallPreload i ds) = preload i ds w"
| "step ev w (CallAddPlugin name r) = addPlugin name r w"
| "step ev w (CallAddCSS href) = addCSS href w"
| "step ev w CallDestroy = destroy w"
| "step ev w (JoinSettles k outs) = settle k outs w"
| "step ev w (ViewerDestroys v) = emitDestroy v w"

definition run :: "env \<Rightarrow> world \<Rightarrow> event list \<Rightarrow> world" where
  "run ev w evs = foldl (step ev) w evs"

text \<open>
  The world in which the callback of \<^verbatim>\<open>then\<close> of the join \<open>k\<close> tests
  \<^verbatim>\<open>shouldOpen\<close>: the join has settled and the loop over \<^verbatim>\<open>iterableModules\<close> has
  written the resolved plugins into \<^verbatim>\<open>_pluginClasses\<close>.
\<close>

definition merged :: "nat \<Rightarrow> item list \<Rightarrow> world \<Rightarrow> world" where
  "merged k its w =
     w\<lparr> joins := list_update (joins w) k ((joins w ! k)\<lparr>settled := True\<rparr>),
        self := foldl mergeItem (self w) its \<rparr>"

text \<open>
  The join \<open>k\<close> settles, each awaited operation with the outcome that \<open>out\<close> gives it.
\<close>

definition settleBy :: "(async_op \<Rightarrow> outcome) \<Rightarrow> nat \<Rightarrow> world \<Rightarrow> world" where
  "settleBy out k w =
     (if k < length (joins w) then settle k (map out (promiseArray (joins w ! k))) w else w)"

text \<open>
  The call of \<^verbatim>\<open>_openPhotoswipe\<close> that the callback of the join \<open>k\<close> makes when the join
  settles with the outcomes \<open>outs\<close> (lines 185 to 188): the module, the token and the
  world of the call. There is none when the join cannot settle so, when an acquisition is
  rejected, and when the callback finds \<^verbatim>\<open>shouldOpen\<close> false. The class calls
  \<^verbatim>\<open>_openPhotoswipe\<close> nowhere else.
\<close>

definition gateCall :: "nat \<Rightarrow> outcome list \<Rightarrow> world \<Rightarrow> (js_module \<times> nat \<times> world) option" where
  "gateCall k outs w =
     (if k < length (joins w) \<and> \<not> settled (joins w ! k)
         \<and> length outs = length (promiseArray (joins w ! k))
      then
        case promiseAll outs of
          None \<Rightarrow> None
        | Some iterableModules \<Rightarrow>
            let w1 = merged k iterableModules w
            in if shouldOpen (self w1)
               then Some (mainModuleOf iterableModules, token (joins w ! k), w1)
               else None
      else None)"

subsection \<open>The invariant of the slot\<close>

text \<open>
  Every viewer that has not emitted \<^verbatim>\<open>destroy\<close> is the one
  in \<^verbatim>\<open>window.pswp\<close>; the slot holds a constructed viewer that has not emitted it; and
  a viewer whose \<^verbatim>\<open>init\<close> was called carries the handler that clears the slot.
\<close>

definition singletonInv :: "world \<Rightarrow> bool" where
  "singletonInv w =
     ((\<forall>v < length (viewers w). \<not> destroyed (viewers w ! v) \<longrightarrow> window_pswp w = Some v) \<and>
      (\<forall>v. window_pswp w = Some v \<longrightarrow> v < length (viewers w) \<and> \<not> destroyed (viewers w ! v)) \<and>
      (\<forall>v < length (viewers w). initialised (viewers w ! v) \<longrightarrow>
           ClearPublic \<in> set (handlersFor ''destroy'' (viewers w ! v))))"

section \<open>A page to run the model on\<close>

text \<open>
  A gallery (element 1) with three links (elements 10, 11 and 12), each holding an image
  (elements 20, 21 and 22), and a paragraph (element 30) outside the links. The lightbox
  is configured with the child selector \<open>a\<close>, a module path and a stylesheet.
\<close>

definition demoOptions :: options where
  "demoOptions =
     \<lparr> gallerySelector = Some ''#gallery'', childSelector = Some ''a'',
       getClickedIndexFn = None, pswpModule = Some (ModulePath ''photoswipe.esm.js''),
       pswpCSS = Some ''photoswipe.css'', openPromise = None, preloadFirstSlide = None,
       index = None, initialPointerPos = None, dataSource = None \<rparr>"

definition demoEnv :: env where
  "demoEnv =
     \<lparr> specialKeyUsed = (\<lambda>e. ctrlKey e \<or> metaKey e \<or> altKey e \<or> shiftKey e),
       closest = (\<lambda>el sel. if sel = ''a'' \<and> el \<in> {10, 11, 12} then Some el
                           else if sel = ''a'' \<and> el \<in> {20, 21, 22} then Some (el - 10)
                           else None),
       querySelectorAll = (\<lambda>el sel. if sel = ''a'' \<and> el = 1 then [10, 11, 12] else []) \<rparr>"

definition demoClick :: "element \<Rightarrow> bool \<Rightarrow> click_event" where
  "demoClick el ctrl =
     \<lparr> target = el, currentTarget = 1, clientX = Some 120, clientY = Some 80,
       ctrlKey = ctrl, metaKey = False, altKey = False, shiftKey = False \<rparr>"

definition demoStart :: world where
  "demoStart = constructor demoOptions [(''change'', [7])] (Some True)"

definition demoModule :: "outcome list" where
  "demoModule = [Fulfilled (ItemModule (ModuleNamespace (Some 0))), Fulfilled ItemOther]"

text \<open>The page after a click on the second image and the load that follows: a viewer is open.\<close>

definition demoOpened :: world where
  "demoOpened = run demoEnv demoStart [Click (demoClick 21 False), JoinSettles 0 demoModule]"

text \<open>The page while the load that the click started is pending.\<close>

definition demoLoading :: world where
  "demoLoading = run demoEnv demoStart [Click (demoClick 21 False)]"

text \<open>
  The page with a plugin registered by its path and two loads pending, and what the
  acquisitions of the first load resolve to.
\<close>

definition demoTwoLoads :: world where
  "demoTwoLoads = run demoEnv demoStart
     [CallAddPlugin ''zoom'' (PluginPath ''zoom.js''),
      Click (demoClick 20 False), Click (demoClick 22 False)]"

definition demoResolved :: "item list" where
  "demoResolved = [ItemModule (ModuleNamespace (Some 0)),
     ItemPlugin ''zoom'' (Some (PluginClass 3)), ItemOther]"

text \<open>
  The page after the second of the two loads has opened a viewer and that viewer has been
  closed: the token is 2, \<^verbatim>\<open>shouldOpen\<close> is \<^verbatim>\<open>false\<close>, the slot is empty and the
  join of the first load is still pending.
\<close>

definition demoClosed :: world where
  "demoClosed = run demoEnv demoTwoLoads
     [JoinSettles 1 (map Fulfilled demoResolved), ViewerDestroys 0]"

text \<open>
  The page with the two loads after the second has opened its viewer, the join of the first
  still pending, and what the acquisitions of the first load then resolve to.
\<close>

definition demoViewerOpen :: world where
  "demoViewerOpen = run demoEnv demoTwoLoads [JoinSettles 1 (map Fulfilled demoResolved)]"

definition demoResolvedLate :: "item list" where
  "demoResolvedLate = [ItemModule (ModuleNamespace (Some 0)),
     ItemPlugin ''zoom'' (Some (PluginClass 4)), ItemOther]"

section \<open>Facts about the model\<close>

lemmas method_defs =
  onThumbnailsClick_def loadAndOpen_def preload_def settle_def thenCallback_def
  openPhotoswipe_def initialPointOf_def getClickedIndex_def configured_def truthy_def
  truthy_num_def truthy_ref_def setDataSource_def pluginOps_def openPromiseOps_def
  lazyLoadOps_def cssOps_def mainModuleOf_def constructorOf_def mergeItem_def newViewer_def
  replayed_def addPlugin_def addCSS_def destroy_def requestClose_def emitDestroy_def
  runHandler_def handlersFor_def

lemmas demo_defs =
  demoStart_def constructor_def demoOptions_def demoEnv_def demoClick_def demoModule_def

lemma demoOpened_slot: "window_pswp demoOpened = Some 0"
  by (simp add: demoOpened_def run_def demo_defs method_defs Let_def)

lemma demoStart_slot: "window_pswp demoStart = None"
  by (simp add: demo_defs)

lemma indexOfChild_None: "indexOfChild c cs i = None \<longleftrightarrow> c \<notin> set cs"
  by (induction cs arbitrary: i) auto

lemma indexOfChild_Some:
  "indexOfChild c cs i = Some m \<longleftrightarrow>
     (\<exists>n. m = i + n \<and> n < length cs \<and> cs ! n = c \<and> c \<notin> set (take n cs))"
proof (induction cs arbitrary: i)
  case Nil
  then show ?case by simp
next
  case (Cons a cs)
  show ?case
  proof (cases "c = a")
    case True
    have "(\<exists>n. m = i + n \<and> n < length (a # cs) \<and> (a # cs) ! n = c \<and> c \<notin> set (take n (a # cs)))
          \<longleftrightarrow> m = i"
    proof
      assume "\<exists>n. m = i + n \<and> n < length (a # cs) \<and> (a # cs) ! n = c \<and> c \<notin> set (take n (a # cs))"
      then obtain n where n: "m = i + n" "c \<notin> set (take n (a # cs))" by blast
      with True have "n = 0" by (cases n) auto
      with n show "m = i" by simp
    next
      assume "m = i"
      with True show "\<exists>n. m = i + n \<and> n < length (a # cs) \<and> (a # cs) ! n = c \<and> c \<notin> set (take n (a # cs))"
        by (intro exI [of _ 0]) simp
    qed
    with True show ?thesis by auto
  next
    case False
    have "(\<exists>n. m = i + n \<and> n < length (a # cs) \<and> (a # cs) ! n = c \<and> c \<notin> set (take n (a # cs)))
          \<longleftrightarrow> (\<exists>n. m = Suc i + n \<and> n < length cs \<and> cs ! n = c \<and> c \<notin> set (take n cs))"
    proof
      assume "\<exists>n. m = i + n \<and> n < length (a # cs) \<and> (a # cs) ! n = c \<and> c \<notin> set (take n (a # cs))"
      then obtain n where n: "m = i + n" "n < length (a # cs)" "(a # cs) ! n = c"
        "c \<notin> set (take n (a # cs))" by blast
      with False obtain k where "n = Suc k" by (cases n) auto
      with n show "\<exists>n. m = Suc i + n \<and> n < length cs \<and> cs ! n = c \<and> c \<notin> set (take n cs)"
        by (intro exI [of _ k]) simp
    next
      assume "\<exists>n. m = Suc i + n \<and> n < length cs \<and> cs ! n = c \<and> c \<notin> set (take n cs)"
      then obtain n where "m = Suc i + n" "n < length cs" "cs ! n = c" "c \<notin> set (take n cs)"
        by blast
      with False show "\<exists>n. m = i + n \<and> n < length (a # cs) \<and> (a # cs) ! n = c \<and> c \<notin> set (take n (a # cs))"
        by (intro exI [of _ "Suc n"]) simp
    qed
    with False Cons.IH [of "Suc i"] show ?thesis by simp
  qed
qed

lemma promiseAll_None: "promiseAll outs = None \<longleftrightarrow> Rejected \<in> set outs"
  by (induction outs rule: promiseAll.induct) auto

lemma promiseAll_Some: "promiseAll outs = Some its \<longleftrightarrow> outs = map Fulfilled its"
  by (induction outs arbitrary: its rule: promiseAll.induct) auto

section \<open>The activation handler and the index resolver\<close>

text \<open>
  C4. When a special key was held (\<^verbatim>\<open>specialKeyUsed(e)\<close>), or \<^verbatim>\<open>window.pswp\<close> is
  occupied, or \<^verbatim>\<open>navigator.onLine\<close> is \<^verbatim>\<open>false\<close>, the handler returns at once: the
  world is the one it was given (no field of the instance changes, the load token
  included, no operation is started and no join is registered) and
  \<^verbatim>\<open>preventDefault\<close> is not called.
\<close>

theorem onThumbnailsClick_pass_through:
  "specialKeyUsed ev e \<or> window_pswp w \<noteq> None \<or> onLine w = Some False \<Longrightarrow>
   onThumbnailsClick ev e w = (w, False) \<and> step ev w (Click e) = w"
  by (auto simp: onThumbnailsClick_def)

theorem onThumbnailsClick_pass_through_witness:
  "specialKeyUsed demoEnv (demoClick 21 True) \<and>
   onThumbnailsClick demoEnv (demoClick 21 True) demoStart = (demoStart, False) \<and>
   window_pswp demoOpened \<noteq> None \<and>
   onThumbnailsClick demoEnv (demoClick 21 False) demoOpened = (demoOpened, False) \<and>
   onLine (demoStart\<lparr>onLine := Some False\<rparr>) = Some False \<and>
   onThumbnailsClick demoEnv (demoClick 21 False) (demoStart\<lparr>onLine := Some False\<rparr>)
     = (demoStart\<lparr>onLine := Some False\<rparr>, False)"
  using onThumbnailsClick_pass_through [of demoEnv "demoClick 21 True" demoStart]
    onThumbnailsClick_pass_through [of demoEnv "demoClick 21 False" demoOpened]
    onThumbnailsClick_pass_through [of demoEnv "demoClick 21 False" "demoStart\<lparr>onLine := Some False\<rparr>"]
  by (simp add: demoOpened_slot demoEnv_def demoClick_def)

text \<open>
  C5. The index resolver. A configured function overrides everything else. Without it
  and without a (truthy) child selector the result is 0. With a child selector, when
  \<^verbatim>\<open>closest\<close> finds the element \<open>c\<close> and \<open>c\<close> is at position \<open>n\<close> of the list that
  \<^verbatim>\<open>querySelectorAll\<close> returns (its first occurrence there), the result is \<open>n\<close>;
  when \<^verbatim>\<open>closest\<close> finds nothing, or finds an element that is not in that list, the
  result is \<^verbatim>\<open>undefined\<close>. The function has no failing branch.
\<close>

theorem getClickedIndex_result:
  "(\<forall>f. getClickedIndexFn (options lb) = Some f \<longrightarrow> getClickedIndex ev e lb = f e) \<and>
   (getClickedIndexFn (options lb) = None \<and> \<not> truthy (childSelector (options lb))
      \<longrightarrow> getClickedIndex ev e lb = Some 0) \<and>
   (\<forall>sel c n. getClickedIndexFn (options lb) = None \<and>
        childSelector (options lb) = Some sel \<and> sel \<noteq> [] \<and>
        closest ev (target e) sel = Some c \<and>
        n < length (querySelectorAll ev (currentTarget e) sel) \<and>
        querySelectorAll ev (currentTarget e) sel ! n = c \<and>
        c \<notin> set (take n (querySelectorAll ev (currentTarget e) sel))
        \<longrightarrow> getClickedIndex ev e lb = Some (int n)) \<and>
   (\<forall>sel. getClickedIndexFn (options lb) = None \<and>
        childSelector (options lb) = Some sel \<and> sel \<noteq> [] \<and>
        (closest ev (target e) sel = None \<or>
         (\<exists>c. closest ev (target e) sel = Some c \<and>
              c \<notin> set (querySelectorAll ev (currentTarget e) sel)))
        \<longrightarrow> getClickedIndex ev e lb = None)"
proof (intro conjI allI impI)
  fix f assume "getClickedIndexFn (options lb) = Some f"
  then show "getClickedIndex ev e lb = f e" by (simp add: getClickedIndex_def)
next
  assume "getClickedIndexFn (options lb) = None \<and> \<not> truthy (childSelector (options lb))"
  then show "getClickedIndex ev e lb = Some 0"
    by (simp add: getClickedIndex_def configured_def)
next
  fix sel c n
  assume h: "getClickedIndexFn (options lb) = None \<and>
        childSelector (options lb) = Some sel \<and> sel \<noteq> [] \<and>
        closest ev (target e) sel = Some c \<and>
        n < length (querySelectorAll ev (currentTarget e) sel) \<and>
        querySelectorAll ev (currentTarget e) sel ! n = c \<and>
        c \<notin> set (take n (querySelectorAll ev (currentTarget e) sel))"
  then have "indexOfChild c (querySelectorAll ev (currentTarget e) sel) 0 = Some n"
    by (subst indexOfChild_Some) (intro exI [of _ n], simp)
  with h show "getClickedIndex ev e lb = Some (int n)"
    by (simp add: getClickedIndex_def configured_def truthy_def Let_def)
next
  fix sel
  assume h: "getClickedIndexFn (options lb) = None \<and>
        childSelector (options lb) = Some sel \<and> sel \<noteq> [] \<and>
        (closest ev (target e) sel = None \<or>
         (\<exists>c. closest ev (target e) sel = Some c \<and>
              c \<notin> set (querySelectorAll ev (currentTarget e) sel)))"
  then show "getClickedIndex ev e lb = None"
    by (auto simp: getClickedIndex_def configured_def truthy_def Let_def indexOfChild_None)
qed

theorem getClickedIndex_result_witness:
  "getClickedIndex demoEnv (demoClick 21 False) (self demoStart) = Some 1 \<and>
   getClickedIndex demoEnv (demoClick 30 False) (self demoStart) = None \<and>
   getClickedIndex demoEnv (demoClick 21 False)
     ((self demoStart)\<lparr>options := demoOptions\<lparr>childSelector := None\<rparr>\<rparr>) = Some 0 \<and>
   getClickedIndex demoEnv (demoClick 21 False)
     ((self demoStart)\<lparr>options := demoOptions\<lparr>getClickedIndexFn := Some (\<lambda>e. Some 5)\<rparr>\<rparr>) = Some 5"
proof -
  note found = getClickedIndex_result [of "self demoStart" demoEnv "demoClick 21 False",
      THEN conjunct2, THEN conjunct2, THEN conjunct1, rule_format, of "''a''" 11 1]
  note missed = getClickedIndex_result [of "self demoStart" demoEnv "demoClick 30 False",
      THEN conjunct2, THEN conjunct2, THEN conjunct2, rule_format, of "''a''"]
  note single = getClickedIndex_result
    [of "(self demoStart)\<lparr>options := demoOptions\<lparr>childSelector := None\<rparr>\<rparr>" demoEnv
      "demoClick 21 False", THEN conjunct2, THEN conjunct1, rule_format]
  note custom = getClickedIndex_result
    [of "(self demoStart)\<lparr>options := demoOptions\<lparr>getClickedIndexFn := Some (\<lambda>e. Some 5)\<rparr>\<rparr>"
      demoEnv "demoClick 21 False", THEN conjunct1, rule_format, of "\<lambda>e. Some 5"]
  have "getClickedIndex demoEnv (demoClick 21 False) (self demoStart) = Some (int 1)"
    by (rule found) (simp add: demo_defs)
  moreover have "getClickedIndex demoEnv (demoClick 30 False) (self demoStart) = None"
    by (rule missed) (simp add: demo_defs)
  moreover have "getClickedIndex demoEnv (demoClick 21 False)
     ((self demoStart)\<lparr>options := demoOptions\<lparr>childSelector := None\<rparr>\<rparr>) = Some 0"
    by (rule single) (simp add: demo_defs truthy_def)
  moreover have "getClickedIndex demoEnv (demoClick 21 False)
     ((self demoStart)\<lparr>options := demoOptions\<lparr>getClickedIndexFn := Some (\<lambda>e. Some 5)\<rparr>\<rparr>) = Some 5"
    by (rule custom) (simp add: demo_defs)
  ultimately show ?thesis by simp
qed

section \<open>Loading\<close>

text \<open>
  C10. \<^verbatim>\<open>loadAndOpen\<close> returns \<^verbatim>\<open>false\<close> and leaves the whole world as it is when
  \<^verbatim>\<open>window.pswp\<close> is occupied. Otherwise it returns \<^verbatim>\<open>true\<close>, having set
  \<^verbatim>\<open>options.index\<close>, \<^verbatim>\<open>options.initialPointerPos\<close> and \<^verbatim>\<open>shouldOpen\<close> and then
  called \<^verbatim>\<open>preload\<close>, which advances the token by one and registers one join.
\<close>

theorem loadAndOpen_result:
  "(window_pswp w \<noteq> None \<longrightarrow> loadAndOpen i ds p w = (False, w)) \<and>
   (window_pswp w = None \<longrightarrow>
      fst (loadAndOpen i ds p w) \<and>
      index (options (self (snd (loadAndOpen i ds p w)))) = Some i \<and>
      initialPointerPos (options (self (snd (loadAndOpen i ds p w)))) = p \<and>
      shouldOpen (self (snd (loadAndOpen i ds p w))) \<and>
      snd (loadAndOpen i ds p w) =
        preload i ds (w\<lparr>self := (self w)\<lparr>options := (options (self w))\<lparr>index := Some i, initialPointerPos := p\<rparr>, shouldOpen := True\<rparr>\<rparr>) \<and>
      uid (self (snd (loadAndOpen i ds p w))) = Suc (uid (self w)) \<and>
      length (joins (snd (loadAndOpen i ds p w))) = Suc (length (joins w)))"
  by (auto simp: loadAndOpen_def preload_def setDataSource_def Let_def split: option.splits)

theorem loadAndOpen_result_witness:
  "window_pswp demoOpened \<noteq> None \<and>
   loadAndOpen 2 None None demoOpened = (False, demoOpened) \<and>
   window_pswp demoStart = None \<and>
   fst (loadAndOpen 2 None None demoStart) \<and>
   index (options (self (snd (loadAndOpen 2 None None demoStart)))) = Some 2 \<and>
   shouldOpen (self (snd (loadAndOpen 2 None None demoStart))) \<and>
   uid (self (snd (loadAndOpen 2 None None demoStart))) = 1"
proof -
  have busy: "window_pswp demoOpened \<noteq> None" by (simp add: demoOpened_slot)
  have free: "window_pswp demoStart = None" by (simp add: demoStart_slot)
  have zero: "uid (self demoStart) = 0" by (simp add: demo_defs)
  from busy loadAndOpen_result [of demoOpened 2 None None]
  have "loadAndOpen 2 None None demoOpened = (False, demoOpened)" by blast
  moreover from free loadAndOpen_result [of demoStart 2 None None]
  have "fst (loadAndOpen 2 None None demoStart) \<and>
    index (options (self (snd (loadAndOpen 2 None None demoStart)))) = Some 2 \<and>
    shouldOpen (self (snd (loadAndOpen 2 None None demoStart))) \<and>
    uid (self (snd (loadAndOpen 2 None None demoStart))) = Suc (uid (self demoStart))"
    by blast
  ultimately show ?thesis using busy free zero by simp
qed

text \<open>
  C7. When an awaited acquisition is rejected, \<^verbatim>\<open>Promise.all\<close> rejects and the callback
  of \<^verbatim>\<open>then\<close> does not run: the instance (\<^verbatim>\<open>shouldOpen\<close> and \<^verbatim>\<open>pswp\<close>
  included), \<^verbatim>\<open>window.pswp\<close> and the viewers are unchanged, no operation is started
  and no join is added.
\<close>

theorem settle_rejected:
  "Rejected \<in> set outs \<Longrightarrow>
   self (settle k outs w) = self w \<and>
   window_pswp (settle k outs w) = window_pswp w \<and>
   viewers (settle k outs w) = viewers w \<and>
   started (settle k outs w) = started w \<and>
   map token (joins (settle k outs w)) = map token (joins w) \<and>
   map promiseArray (joins (settle k outs w)) = map promiseArray (joins w)"
  by (simp add: settle_def Let_def promiseAll_None [symmetric] map_update list_update_same_conv)
theorem settle_rejected_witness:
  "Rejected \<in> set [Fulfilled (ItemModule (ModuleNamespace (Some 0))), Rejected] \<and>
   shouldOpen (self demoLoading) \<and>
   shouldOpen (self (settle 0 [Fulfilled (ItemModule (ModuleNamespace (Some 0))), Rejected] demoLoading)) \<and>
   window_pswp (settle 0 [Fulfilled (ItemModule (ModuleNamespace (Some 0))), Rejected] demoLoading) = None \<and>
   viewers (settle 0 [Fulfilled (ItemModule (ModuleNamespace (Some 0))), Rejected] demoLoading) = [] \<and>
   map settled (joins (settle 0 [Fulfilled (ItemModule (ModuleNamespace (Some 0))), Rejected] demoLoading)) = [True]"
proof -
  have w: "shouldOpen (self demoLoading) \<and> window_pswp demoLoading = None \<and> viewers demoLoading = []"
    by (simp add: demoLoading_def run_def demo_defs method_defs Let_def)
  have s: "map settled (joins (settle 0 [Fulfilled (ItemModule (ModuleNamespace (Some 0))), Rejected] demoLoading)) = [True]"
    by (simp add: demoLoading_def run_def demo_defs method_defs Let_def)
  from settle_rejected [of "[Fulfilled (ItemModule (ModuleNamespace (Some 0))), Rejected]" 0 demoLoading]
  show ?thesis using w s by simp
qed

lemma preload_joins:
  "joins (preload i ds w) = joins w @
     [\<lparr>token = Suc (uid (self w)),
       promiseArray = DynamicImportModule (pswpModule (options (self w)))
          # pluginOps (self w) @ openPromiseOps (options (self w)) @ cssOps (self w),
       settled = False\<rparr>]"
  by (cases ds) (simp_all add: preload_def setDataSource_def Let_def pluginOps_def cssOps_def openPromiseOps_def)

lemma preload_started:
  "started (preload i ds w) = started w @
     (DynamicImportModule (pswpModule (options (self w)))
          # pluginOps (self w) @ openPromiseOps (options (self w)))
     @ lazyLoadOps (options (self w)) i @ cssOps (self w)"
  by (cases ds) (simp_all add: preload_def setDataSource_def Let_def pluginOps_def cssOps_def openPromiseOps_def lazyLoadOps_def)

lemma awaited_no_warm_up:
  "LazyLoadSlide n \<notin> set (DynamicImportModule m # pluginOps lb @ openPromiseOps opts @ cssOps lb')"
  by (auto simp: pluginOps_def openPromiseOps_def cssOps_def split: option.splits)

text \<open>
  C9. With \<^verbatim>\<open>preloadFirstSlide\<close> not \<^verbatim>\<open>false\<close> and a non-negative index,
  \<^verbatim>\<open>preload\<close> starts \<^verbatim>\<open>lazyLoadSlide\<close>, and the join it registers awaits the
  operations started before and after it, not the warm-up itself. With
  \<^verbatim>\<open>preloadFirstSlide\<close> \<^verbatim>\<open>false\<close> or a negative index the operations started are
  exactly the awaited ones. No warm-up is ever a member of the join, so whenever that join
  settles, two assignments of outcomes that differ only on warm-ups lead to the same
  world: the decision to open does not depend on the warm-up.
\<close>

theorem preload_warm_up:
  "(preloadFirstSlide (options (self w)) \<noteq> Some False \<and> 0 \<le> i \<longrightarrow>
      (\<exists>before after.
         started (preload i ds w) = started w @ before @ LazyLoadSlide i # after \<and>
         promiseArray (joins (preload i ds w) ! length (joins w)) = before @ after)) \<and>
   (preloadFirstSlide (options (self w)) = Some False \<or> i < 0 \<longrightarrow>
      started (preload i ds w)
        = started w @ promiseArray (joins (preload i ds w) ! length (joins w))) \<and>
   (\<forall>n. LazyLoadSlide n \<notin> set (promiseArray (joins (preload i ds w) ! length (joins w)))) \<and>
   (\<forall>f g w1. (\<forall>a. (\<forall>n. a \<noteq> LazyLoadSlide n) \<longrightarrow> f a = g a) \<and>
       length (joins w) < length (joins w1) \<and>
       promiseArray (joins w1 ! length (joins w))
         = promiseArray (joins (preload i ds w) ! length (joins w))
       \<longrightarrow> settleBy f (length (joins w)) w1 = settleBy g (length (joins w)) w1)"
proof (intro conjI allI impI)
  assume "preloadFirstSlide (options (self w)) \<noteq> Some False \<and> 0 \<le> i"
  then show "\<exists>before after.
         started (preload i ds w) = started w @ before @ LazyLoadSlide i # after \<and>
         promiseArray (joins (preload i ds w) ! length (joins w)) = before @ after"
    by (intro exI [of _ "DynamicImportModule (pswpModule (options (self w)))
          # pluginOps (self w) @ openPromiseOps (options (self w))"] exI [of _ "cssOps (self w)"])
      (simp add: preload_joins preload_started lazyLoadOps_def)
next
  assume "preloadFirstSlide (options (self w)) = Some False \<or> i < 0"
  then show "started (preload i ds w)
        = started w @ promiseArray (joins (preload i ds w) ! length (joins w))"
    by (auto simp: preload_joins preload_started lazyLoadOps_def)
next
  fix n
  show "LazyLoadSlide n \<notin> set (promiseArray (joins (preload i ds w) ! length (joins w)))"
    using awaited_no_warm_up [of n _ "self w" "options (self w)" "self w"]
    by (simp add: preload_joins)
next
  fix f g :: "async_op \<Rightarrow> outcome" and w1 :: world
  assume h: "(\<forall>a. (\<forall>n. a \<noteq> LazyLoadSlide n) \<longrightarrow> f a = g a) \<and>
       length (joins w) < length (joins w1) \<and>
       promiseArray (joins w1 ! length (joins w))
         = promiseArray (joins (preload i ds w) ! length (joins w))"
  have "\<forall>n. LazyLoadSlide n \<notin> set (promiseArray (joins w1 ! length (joins w)))"
    using h awaited_no_warm_up [of _ _ "self w" "options (self w)" "self w"]
    by (simp add: preload_joins)
  with h have "map f (promiseArray (joins w1 ! length (joins w)))
      = map g (promiseArray (joins w1 ! length (joins w)))"
    by (intro map_cong refl) metis
  then show "settleBy f (length (joins w)) w1 = settleBy g (length (joins w)) w1"
    by (simp only: settleBy_def)
qed


theorem preload_warm_up_witness:
  "preloadFirstSlide (options (self demoStart)) \<noteq> Some False \<and>
   LazyLoadSlide 1 \<in> set (started (preload 1 None demoStart)) \<and>
   LazyLoadSlide 1 \<notin> set (promiseArray (joins (preload 1 None demoStart) ! 0)) \<and>
   (\<forall>n. LazyLoadSlide n \<notin> set (started (preload (- 1) None demoStart))) \<and>
   settleBy (\<lambda>a. case a of LazyLoadSlide n \<Rightarrow> Rejected | _ \<Rightarrow> Fulfilled ItemOther) 0
       (preload 1 None demoStart)
     = settleBy (\<lambda>a. Fulfilled ItemOther) 0 (preload 1 None demoStart)"
proof -
  have len: "length (joins demoStart) = 0" and st: "started demoStart = []"
    by (simp_all add: demo_defs)
  note r = preload_warm_up [of demoStart 1 None, unfolded len]
  note q = preload_warm_up [of demoStart "- 1" None, unfolded len]
  have "preloadFirstSlide (options (self demoStart)) \<noteq> Some False \<and> (0::int) \<le> 1"
    by (simp add: demo_defs)
  with r obtain before after where
    "started (preload 1 None demoStart) = started demoStart @ before @ LazyLoadSlide 1 # after"
    by blast
  then have a: "LazyLoadSlide 1 \<in> set (started (preload 1 None demoStart))" by simp
  from r have b: "LazyLoadSlide 1 \<notin> set (promiseArray (joins (preload 1 None demoStart) ! 0))"
    by blast
  from q have "started (preload (- 1) None demoStart)
        = started demoStart @ promiseArray (joins (preload (- 1) None demoStart) ! 0)"
    and "\<forall>n. LazyLoadSlide n \<notin> set (promiseArray (joins (preload (- 1) None demoStart) ! 0))"
    by simp_all
  then have c: "\<forall>n. LazyLoadSlide n \<notin> set (started (preload (- 1) None demoStart))"
    by (simp add: st)
  have "settleBy (\<lambda>a. case a of LazyLoadSlide n \<Rightarrow> Rejected | _ \<Rightarrow> Fulfilled ItemOther) 0
       (preload 1 None demoStart)
     = settleBy (\<lambda>a. Fulfilled ItemOther) 0 (preload 1 None demoStart)"
    by (rule r [THEN conjunct2, THEN conjunct2, THEN conjunct2, rule_format])
      (auto simp: preload_joins split: async_op.splits)
  with a b c show ?thesis by (simp add: demo_defs)
qed

section \<open>The callback of the join\<close>

lemma mergeItem_frame:
  "options (mergeItem lb it) = options lb"
  "additionalDynamicCSS (mergeItem lb it) = additionalDynamicCSS lb"
  "uid (mergeItem lb it) = uid lb"
  "shouldOpen (mergeItem lb it) = shouldOpen lb"
  "pswp (mergeItem lb it) = pswp lb"
  "listeners (mergeItem lb it) = listeners lb"
  by (simp_all add: mergeItem_def split: item.splits option.splits)

lemma merge_frame:
  "options (foldl mergeItem lb its) = options lb"
  "additionalDynamicCSS (foldl mergeItem lb its) = additionalDynamicCSS lb"
  "uid (foldl mergeItem lb its) = uid lb"
  "shouldOpen (foldl mergeItem lb its) = shouldOpen lb"
  "pswp (foldl mergeItem lb its) = pswp lb"
  "listeners (foldl mergeItem lb its) = listeners lb"
  by (induction its arbitrary: lb) (simp_all add: mergeItem_frame)

lemma mergeItem_registry:
  "map_of (pluginClasses (mergeItem lb it)) =
     (case it of
        ItemPlugin key (Some r) \<Rightarrow>
          if key \<noteq> [] \<and> truthy_ref (Some r) then (map_of (pluginClasses lb))(key \<mapsto> r)
          else map_of (pluginClasses lb)
      | _ \<Rightarrow> map_of (pluginClasses lb))"
  by (simp add: mergeItem_def update_conv' split: item.splits option.splits)

lemma merge_registry:
  "ItemPlugin key (Some r) \<in> set its \<Longrightarrow> key \<noteq> [] \<Longrightarrow> truthy_ref (Some r) \<Longrightarrow>
   \<exists>r'. map_of (pluginClasses (foldl mergeItem lb its)) key = Some r' \<and>
        ItemPlugin key (Some r') \<in> set its \<and> truthy_ref (Some r')"
proof (induction its rule: rev_induct)
  case Nil
  then show ?case by simp
next
  case (snoc x xs)
  show ?case
  proof (cases "\<exists>r'. x = ItemPlugin key (Some r') \<and> truthy_ref (Some r')")
    case True
    then obtain r' where "x = ItemPlugin key (Some r')" "truthy_ref (Some r')" by blast
    with snoc.prems show ?thesis
      by (intro exI [of _ r']) (simp add: mergeItem_registry)
  next
    case False
    with snoc.prems have "ItemPlugin key (Some r) \<in> set xs" by auto
    from snoc.IH [OF this snoc.prems(2,3)] obtain r' where
      r': "map_of (pluginClasses (foldl mergeItem lb xs)) key = Some r'"
        "ItemPlugin key (Some r') \<in> set xs" "truthy_ref (Some r')" by blast
    from False have "map_of (pluginClasses (mergeItem (foldl mergeItem lb xs) x)) key
        = map_of (pluginClasses (foldl mergeItem lb xs)) key"
      by (auto simp: mergeItem_registry split: item.splits option.splits)
    with r' show ?thesis by (intro exI [of _ r']) simp
  qed
qed

lemma openPhotoswipe_stale:
  "t \<noteq> uid (self w) \<Longrightarrow> shouldOpen (self w) \<Longrightarrow> openPhotoswipe m t w = (Cancelled, w)"
  by (simp add: openPhotoswipe_def)

lemma openPhotoswipe_registry:
  "pluginClasses (self (snd (openPhotoswipe m t w))) = pluginClasses (self w)"
  by (simp add: openPhotoswipe_def Let_def split: option.splits)

lemma handlersFor_last:
  "handlers v = hs @ [(name, h)] \<Longrightarrow> h \<in> set (handlersFor name v)"
  by (force simp: handlersFor_def)

lemma openPhotoswipe_handlers:
  "fst (openPhotoswipe m t w) = Opened v \<Longrightarrow>
   \<exists>ls. handlers (viewers (snd (openPhotoswipe m t w)) ! v)
     = replayed ls @ [(''destroy'', ClearPublic)]"
  by (auto simp: openPhotoswipe_def Let_def newViewer_def split: option.splits if_splits)

lemma openPhotoswipe_opened:
  "fst (openPhotoswipe m t w) = Opened v \<Longrightarrow>
   window_pswp w = None \<and> v = length (viewers w) \<and>
   window_pswp (snd (openPhotoswipe m t w)) = Some v \<and>
   pswp (self (snd (openPhotoswipe m t w))) = Some v \<and>
   length (viewers (snd (openPhotoswipe m t w))) = Suc v \<and>
   pluginClassesRef (viewers (snd (openPhotoswipe m t w)) ! v) = Some InstanceRegistry \<and>
   viewerOptions (viewers (snd (openPhotoswipe m t w)) ! v) = options (self w) \<and>
   initialised (viewers (snd (openPhotoswipe m t w)) ! v) \<and>
   \<not> destroyed (viewers (snd (openPhotoswipe m t w)) ! v) \<and>
   ClearPublic \<in> set (handlersFor ''destroy'' (viewers (snd (openPhotoswipe m t w)) ! v))"
  using openPhotoswipe_handlers [of m t w v]
  by (auto simp: openPhotoswipe_def Let_def newViewer_def handlersFor_last
      split: option.splits if_splits)

lemma settle_fulfilled:
  assumes "k < length (joins w)" "\<not> settled (joins w ! k)"
    "length its = length (promiseArray (joins w ! k))"
  shows "settle k (map Fulfilled its) w =
     (if shouldOpen (self w)
      then snd (openPhotoswipe (mainModuleOf its) (token (joins w ! k)) (merged k its w))
      else merged k its w)"
proof -
  have "promiseAll (map Fulfilled its) = Some its" by (simp add: promiseAll_Some)
  with assms show ?thesis
    by (simp add: settle_def thenCallback_def merged_def Let_def merge_frame)
qed

lemma openPhotoswipe_attached:
  "window_pswp w = None \<Longrightarrow> window_pswp (snd (openPhotoswipe m t w)) = Some v \<Longrightarrow>
   v = length (viewers w) \<and> length (viewers (snd (openPhotoswipe m t w))) = Suc v \<and>
   viewerPluginClasses (snd (openPhotoswipe m t w)) v = Some (pluginClasses (self w))"
  by (auto simp: openPhotoswipe_def Let_def newViewer_def viewerPluginClasses_def
      split: option.splits if_splits)

lemma demoTwoLoads_eq:
  "uid (self demoTwoLoads) = 2" "shouldOpen (self demoTwoLoads)"
  "map token (joins demoTwoLoads) = [1, 2]" "map settled (joins demoTwoLoads) = [False, False]"
  "map (length \<circ> promiseArray) (joins demoTwoLoads) = [3, 3]"
  "pluginClasses (self demoTwoLoads) = [(''zoom'', PluginPath ''zoom.js'')]"
  "viewers demoTwoLoads = []" "window_pswp demoTwoLoads = None"
  by (simp_all add: demoTwoLoads_def run_def demo_defs method_defs Let_def)

lemma demoTwoLoads_second:
  "token (joins demoTwoLoads ! 1) = 2"
  "window_pswp (settle 1 (map Fulfilled demoResolved) demoTwoLoads) = Some 0"
  by (simp_all add: demoTwoLoads_def demoResolved_def run_def demo_defs method_defs Let_def)

lemma demoViewerOpen_eq:
  "uid (self demoViewerOpen) = 2" "\<not> shouldOpen (self demoViewerOpen)"
  "map token (joins demoViewerOpen) = [1, 2]" "map settled (joins demoViewerOpen) = [False, True]"
  "map (length \<circ> promiseArray) (joins demoViewerOpen) = [3, 3]"
  "pluginClasses (self demoViewerOpen) = [(''zoom'', PluginClass 3)]"
  "length (viewers demoViewerOpen) = 1" "window_pswp demoViewerOpen = Some 0"
  "pluginClassesRef (viewers demoViewerOpen ! 0) = Some InstanceRegistry"
  by (simp_all add: demoViewerOpen_def demoTwoLoads_def demoResolved_def run_def demo_defs
      method_defs Let_def)

text \<open>
  \<^verbatim>\<open>_openPhotoswipe\<close> adds at most one viewer and leaves those that exist as they are.
\<close>

lemma openPhotoswipe_keeps:
  "length (viewers w) \<le> length (viewers (snd (openPhotoswipe m t w)))"
  "v < length (viewers w) \<Longrightarrow>
   pluginClassesRef (viewers (snd (openPhotoswipe m t w)) ! v) = pluginClassesRef (viewers w ! v)"
  by (auto simp: openPhotoswipe_def Let_def nth_append split: option.splits)

text \<open>
  C8. When a join settles with every acquisition fulfilled, its callback first merges the
  resolved items into the registry and only then tests \<^verbatim>\<open>shouldOpen\<close> and calls
  \<^verbatim>\<open>_openPhotoswipe\<close>, which does not write the registry. So after the join, and in the
  world the gate is called in, every item with a non-empty \<^verbatim>\<open>pluginKey\<close> and a truthy
  \<^verbatim>\<open>moduleClass\<close> has its name in the registry, bound to the class of such an item of
  this join (its own when no other item carries the name); a viewer that the call opens
  refers to that registry. When the token of the join is not the current one, the merge
  still happens and no viewer is constructed: the number of viewers, \<^verbatim>\<open>window.pswp\<close> and
  \<^verbatim>\<open>this.pswp\<close> are unchanged. The merge writes into the object that the viewers share
  with the instance, so a viewer that is open finds the merged registry in its
  \<^verbatim>\<open>pluginClasses\<close>, whatever the token of the join.
\<close>

theorem settle_merges_plugins:
  assumes "k < length (joins w)" and "\<not> settled (joins w ! k)"
    and "length its = length (promiseArray (joins w ! k))"
  shows "settle k (map Fulfilled its) w =
      (if shouldOpen (self w)
       then snd (openPhotoswipe (mainModuleOf its) (token (joins w ! k)) (merged k its w))
       else merged k its w) \<and>
    pluginClasses (self (merged k its w)) = pluginClasses (foldl mergeItem (self w) its) \<and>
    pluginClasses (self (settle k (map Fulfilled its) w))
      = pluginClasses (self (merged k its w)) \<and>
    (\<forall>key r. ItemPlugin key (Some r) \<in> set its \<and> key \<noteq> [] \<and> truthy_ref (Some r) \<longrightarrow>
       (\<exists>r'. map_of (pluginClasses (self (merged k its w))) key = Some r' \<and>
             ItemPlugin key (Some r') \<in> set its \<and>
             ((\<forall>r''. ItemPlugin key (Some r'') \<in> set its \<longrightarrow> r'' = r) \<longrightarrow> r' = r))) \<and>
    (\<forall>v. window_pswp w = None \<and> window_pswp (settle k (map Fulfilled its) w) = Some v \<longrightarrow>
       viewerPluginClasses (settle k (map Fulfilled its) w) v
         = Some (pluginClasses (self (merged k its w)))) \<and>
    (token (joins w ! k) \<noteq> uid (self w) \<longrightarrow>
       length (viewers (settle k (map Fulfilled its) w)) = length (viewers w) \<and>
       window_pswp (settle k (map Fulfilled its) w) = window_pswp w \<and>
       pswp (self (settle k (map Fulfilled its) w)) = pswp (self w)) \<and>
    (\<forall>v. v < length (viewers w) \<and> pluginClassesRef (viewers w ! v) = Some InstanceRegistry \<longrightarrow>
       viewerPluginClasses (settle k (map Fulfilled its) w) v
         = Some (pluginClasses (self (merged k its w))))"
proof (intro conjI)
  note eq = settle_fulfilled [OF assms]
  show "settle k (map Fulfilled its) w =
      (if shouldOpen (self w)
       then snd (openPhotoswipe (mainModuleOf its) (token (joins w ! k)) (merged k its w))
       else merged k its w)" by (rule eq)
  show "pluginClasses (self (merged k its w)) = pluginClasses (foldl mergeItem (self w) its)"
    by (simp add: merged_def)
  show same: "pluginClasses (self (settle k (map Fulfilled its) w))
           = pluginClasses (self (merged k its w))"
    by (simp add: eq openPhotoswipe_registry)
  show "\<forall>key r. ItemPlugin key (Some r) \<in> set its \<and> key \<noteq> [] \<and> truthy_ref (Some r) \<longrightarrow>
           (\<exists>r'. map_of (pluginClasses (self (merged k its w))) key = Some r' \<and>
                 ItemPlugin key (Some r') \<in> set its \<and>
                 ((\<forall>r''. ItemPlugin key (Some r'') \<in> set its \<longrightarrow> r'' = r) \<longrightarrow> r' = r))"
  proof (intro allI impI)
    fix key r
    assume h: "ItemPlugin key (Some r) \<in> set its \<and> key \<noteq> [] \<and> truthy_ref (Some r)"
    then obtain r' where "map_of (pluginClasses (foldl mergeItem (self w) its)) key = Some r'"
      "ItemPlugin key (Some r') \<in> set its"
      using merge_registry [of key r its "self w"] by blast
    then show "\<exists>r'. map_of (pluginClasses (self (merged k its w))) key = Some r' \<and>
                 ItemPlugin key (Some r') \<in> set its \<and>
                 ((\<forall>r''. ItemPlugin key (Some r'') \<in> set its \<longrightarrow> r'' = r) \<longrightarrow> r' = r)"
      by (intro exI [of _ r']) (simp add: merged_def)
  qed
  show "\<forall>v. window_pswp w = None \<and> window_pswp (settle k (map Fulfilled its) w) = Some v \<longrightarrow>
       viewerPluginClasses (settle k (map Fulfilled its) w) v
         = Some (pluginClasses (self (merged k its w)))"
  proof (intro allI impI)
    fix v
    assume h: "window_pswp w = None \<and> window_pswp (settle k (map Fulfilled its) w) = Some v"
    have free: "window_pswp (merged k its w) = None" using h by (simp add: merged_def)
    show "viewerPluginClasses (settle k (map Fulfilled its) w) v
         = Some (pluginClasses (self (merged k its w)))"
    proof (cases "shouldOpen (self w)")
      case True
      with h have "window_pswp (snd (openPhotoswipe (mainModuleOf its) (token (joins w ! k))
          (merged k its w))) = Some v" by (simp add: eq)
      from openPhotoswipe_attached [OF free this]
      have "viewerPluginClasses (snd (openPhotoswipe (mainModuleOf its)
          (token (joins w ! k)) (merged k its w))) v = Some (pluginClasses (self (merged k its w)))"
        by blast
      with True show ?thesis by (simp only: eq if_True)
    next
      case False
      with h free show ?thesis by (simp add: eq)
    qed
  qed
  show "token (joins w ! k) \<noteq> uid (self w) \<longrightarrow>
           length (viewers (settle k (map Fulfilled its) w)) = length (viewers w) \<and>
           window_pswp (settle k (map Fulfilled its) w) = window_pswp w \<and>
           pswp (self (settle k (map Fulfilled its) w)) = pswp (self w)"
  proof
    assume stale: "token (joins w ! k) \<noteq> uid (self w)"
    show "length (viewers (settle k (map Fulfilled its) w)) = length (viewers w) \<and>
           window_pswp (settle k (map Fulfilled its) w) = window_pswp w \<and>
           pswp (self (settle k (map Fulfilled its) w)) = pswp (self w)"
    proof (cases "shouldOpen (self w)")
      case True
      with stale have "openPhotoswipe (mainModuleOf its) (token (joins w ! k)) (merged k its w)
          = (Cancelled, merged k its w)"
        by (intro openPhotoswipe_stale) (simp_all add: merged_def merge_frame)
      with True show ?thesis by (simp add: eq) (simp add: merged_def merge_frame)
    next
      case False
      then show ?thesis by (simp add: eq) (simp add: merged_def merge_frame)
    qed
  qed
  show "\<forall>v. v < length (viewers w) \<and> pluginClassesRef (viewers w ! v) = Some InstanceRegistry \<longrightarrow>
       viewerPluginClasses (settle k (map Fulfilled its) w) v
         = Some (pluginClasses (self (merged k its w)))"
  proof (intro allI impI)
    fix v
    assume h: "v < length (viewers w) \<and> pluginClassesRef (viewers w ! v) = Some InstanceRegistry"
    then have v: "v < length (viewers (merged k its w))"
      and r: "pluginClassesRef (viewers (merged k its w) ! v) = Some InstanceRegistry"
      by (simp_all add: merged_def)
    have "v < length (viewers (settle k (map Fulfilled its) w)) \<and>
      pluginClassesRef (viewers (settle k (map Fulfilled its) w) ! v) = Some InstanceRegistry"
    proof (cases "shouldOpen (self w)")
      case True
      from openPhotoswipe_keeps(1) [of "merged k its w" "mainModuleOf its" "token (joins w ! k)"]
        openPhotoswipe_keeps(2) [OF v, of "mainModuleOf its" "token (joins w ! k)"] v r True
      show ?thesis by (simp add: eq)
    next
      case False
      with v r show ?thesis by (simp add: eq)
    qed
    then show "viewerPluginClasses (settle k (map Fulfilled its) w) v
         = Some (pluginClasses (self (merged k its w)))"
      by (simp add: viewerPluginClasses_def same)
  qed
qed

theorem settle_merges_plugins_witness:
  "0 < length (joins demoTwoLoads) \<and> \<not> settled (joins demoTwoLoads ! 0) \<and>
   length demoResolved = length (promiseArray (joins demoTwoLoads ! 0)) \<and>
   token (joins demoTwoLoads ! 0) \<noteq> uid (self demoTwoLoads) \<and>
   map_of (pluginClasses (self demoTwoLoads)) ''zoom'' = Some (PluginPath ''zoom.js'') \<and>
   map_of (pluginClasses (self (settle 0 (map Fulfilled demoResolved) demoTwoLoads))) ''zoom''
     = Some (PluginClass 3) \<and>
   length (viewers (settle 0 (map Fulfilled demoResolved) demoTwoLoads)) = 0 \<and>
   window_pswp (settle 0 (map Fulfilled demoResolved) demoTwoLoads) = None \<and>
   token (joins demoTwoLoads ! 1) = uid (self demoTwoLoads) \<and>
   window_pswp (settle 1 (map Fulfilled demoResolved) demoTwoLoads) = Some 0 \<and>
   viewerPluginClasses (settle 1 (map Fulfilled demoResolved) demoTwoLoads) 0
     = Some [(''zoom'', PluginClass 3)] \<and>
   token (joins demoViewerOpen ! 0) \<noteq> uid (self demoViewerOpen) \<and>
   viewerPluginClasses demoViewerOpen 0 = Some [(''zoom'', PluginClass 3)] \<and>
   viewerPluginClasses (settle 0 (map Fulfilled demoResolvedLate) demoViewerOpen) 0
     = Some [(''zoom'', PluginClass 4)] \<and>
   length (viewers (settle 0 (map Fulfilled demoResolvedLate) demoViewerOpen)) = 1 \<and>
   window_pswp (settle 0 (map Fulfilled demoResolvedLate) demoViewerOpen) = Some 0"
proof -
  have j: "joins demoTwoLoads \<noteq> []" "token (joins demoTwoLoads ! 0) = 1"
    "\<not> settled (joins demoTwoLoads ! 0)" "length (promiseArray (joins demoTwoLoads ! 0)) = 3"
    "1 < length (joins demoTwoLoads)"
    "\<not> settled (joins demoTwoLoads ! 1)" "length (promiseArray (joins demoTwoLoads ! 1)) = 3"
    using demoTwoLoads_eq(3,4,5) by (auto simp: map_eq_Cons_conv)
  then have pre: "0 < length (joins demoTwoLoads)" "\<not> settled (joins demoTwoLoads ! 0)"
    "length demoResolved = length (promiseArray (joins demoTwoLoads ! 0))"
    and pre1: "1 < length (joins demoTwoLoads)" "\<not> settled (joins demoTwoLoads ! 1)"
    "length demoResolved = length (promiseArray (joins demoTwoLoads ! 1))"
    by (simp_all add: demoResolved_def)
  have j2: "joins demoViewerOpen \<noteq> []" "token (joins demoViewerOpen ! 0) = 1"
    "\<not> settled (joins demoViewerOpen ! 0)"
    "length (promiseArray (joins demoViewerOpen ! 0)) = 3"
    using demoViewerOpen_eq(3,4,5) by (auto simp: map_eq_Cons_conv)
  then have pre2: "0 < length (joins demoViewerOpen)" "\<not> settled (joins demoViewerOpen ! 0)"
    "length demoResolvedLate = length (promiseArray (joins demoViewerOpen ! 0))"
    by (simp_all add: demoResolvedLate_def)
  note r = settle_merges_plugins [OF pre]
  note same = r [THEN conjunct2, THEN conjunct2, THEN conjunct1]
  note written = r [THEN conjunct2, THEN conjunct2, THEN conjunct2, THEN conjunct1, rule_format,
      of "''zoom''" "PluginClass 3"]
  note stale = r [THEN conjunct2, THEN conjunct2, THEN conjunct2, THEN conjunct2, THEN conjunct2,
      THEN conjunct1, rule_format]
  note r1 = settle_merges_plugins [OF pre1]
  note written1 = r1 [THEN conjunct2, THEN conjunct2, THEN conjunct2, THEN conjunct1,
      rule_format, of "''zoom''" "PluginClass 3"]
  note attached = r1 [THEN conjunct2, THEN conjunct2, THEN conjunct2, THEN conjunct2,
      THEN conjunct1, rule_format, of 0]
  note r2 = settle_merges_plugins [OF pre2]
  note stale2 = r2 [THEN conjunct2, THEN conjunct2, THEN conjunct2, THEN conjunct2,
      THEN conjunct2, THEN conjunct1, rule_format]
  note shared2 = r2 [THEN conjunct2, THEN conjunct2, THEN conjunct2, THEN conjunct2,
      THEN conjunct2, THEN conjunct2, rule_format, of 0]
  have it: "ItemPlugin ''zoom'' (Some (PluginClass 3)) \<in> set demoResolved \<and> ''zoom'' \<noteq> [] \<and>
      truthy_ref (Some (PluginClass 3))"
    by (simp add: demoResolved_def truthy_ref_def)
  from written [OF it] obtain r' where
    "map_of (pluginClasses (self (merged 0 demoResolved demoTwoLoads))) ''zoom'' = Some r'"
    "ItemPlugin ''zoom'' (Some r') \<in> set demoResolved" by blast
  then have "map_of (pluginClasses (self (merged 0 demoResolved demoTwoLoads))) ''zoom''
      = Some (PluginClass 3)" by (simp add: demoResolved_def)
  then have a: "map_of (pluginClasses (self (settle 0 (map Fulfilled demoResolved) demoTwoLoads)))
      ''zoom'' = Some (PluginClass 3)" by (simp only: same)
  have old: "token (joins demoTwoLoads ! 0) \<noteq> uid (self demoTwoLoads)"
    by (simp add: j demoTwoLoads_eq)
  from stale [OF old]
  have b: "length (viewers (settle 0 (map Fulfilled demoResolved) demoTwoLoads)) = 0 \<and>
      window_pswp (settle 0 (map Fulfilled demoResolved) demoTwoLoads) = None"
    by (simp add: demoTwoLoads_eq)
  have m1: "pluginClasses (self (merged 1 demoResolved demoTwoLoads)) = [(''zoom'', PluginClass 3)]"
    by (simp add: merged_def demoResolved_def mergeItem_def truthy_ref_def demoTwoLoads_eq)
  have "window_pswp demoTwoLoads = None \<and>
      window_pswp (settle 1 (map Fulfilled demoResolved) demoTwoLoads) = Some 0"
    using demoTwoLoads_eq(8) demoTwoLoads_second(2) by simp
  from attached [OF this]
  have c: "viewerPluginClasses (settle 1 (map Fulfilled demoResolved) demoTwoLoads) 0
      = Some [(''zoom'', PluginClass 3)]" by (simp only: m1)
  have old2: "token (joins demoViewerOpen ! 0) \<noteq> uid (self demoViewerOpen)"
    by (simp add: j2 demoViewerOpen_eq)
  from stale2 [OF old2]
  have d: "length (viewers (settle 0 (map Fulfilled demoResolvedLate) demoViewerOpen)) = 1 \<and>
      window_pswp (settle 0 (map Fulfilled demoResolvedLate) demoViewerOpen) = Some 0"
    by (simp add: demoViewerOpen_eq)
  have m2: "pluginClasses (self (merged 0 demoResolvedLate demoViewerOpen))
      = [(''zoom'', PluginClass 4)]"
    by (simp add: merged_def demoResolvedLate_def mergeItem_def truthy_ref_def demoViewerOpen_eq)
  have "0 < length (viewers demoViewerOpen) \<and>
      pluginClassesRef (viewers demoViewerOpen ! 0) = Some InstanceRegistry"
    by (simp add: demoViewerOpen_eq)
  from shared2 [OF this]
  have e: "viewerPluginClasses (settle 0 (map Fulfilled demoResolvedLate) demoViewerOpen) 0
      = Some [(''zoom'', PluginClass 4)]" by (simp only: m2)
  have f: "viewerPluginClasses demoViewerOpen 0 = Some [(''zoom'', PluginClass 3)]"
    by (simp add: viewerPluginClasses_def demoViewerOpen_eq)
  from a b c d e f pre old old2 show ?thesis
    using demoTwoLoads_eq(1,6) demoTwoLoads_second by simp
qed

section \<open>The load token\<close>

lemma runHandlers_frame:
  "joins (foldl runHandler w hs) = joins w"
  "started (foldl runHandler w hs) = started w"
  "viewers (foldl runHandler w hs) = viewers w"
  "onLine (foldl runHandler w hs) = onLine w"
  "uid (self (foldl runHandler w hs)) = uid (self w)"
  "shouldOpen (self (foldl runHandler w hs)) = shouldOpen (self w)"
  "listeners (self (foldl runHandler w hs)) = listeners (self w)"
  "pluginClasses (self (foldl runHandler w hs)) = pluginClasses (self w)"
  by (induction hs arbitrary: w) (simp_all add: runHandler_def split: handler.splits)

lemma runHandlers_slot:
  "window_pswp (foldl runHandler w hs) = (if ClearPublic \<in> set hs then None else window_pswp w)"
  "pswp (self (foldl runHandler w hs)) = (if ClearPublic \<in> set hs then None else pswp (self w))"
  by (induction hs arbitrary: w rule: rev_induct) (simp_all add: runHandler_def split: handler.splits)

lemma openPhotoswipe_frame:
  "joins (snd (openPhotoswipe m t w)) = joins w"
  "started (snd (openPhotoswipe m t w)) = started w"
  "onLine (snd (openPhotoswipe m t w)) = onLine w"
  "uid (self (snd (openPhotoswipe m t w))) = uid (self w)"
  "listeners (self (snd (openPhotoswipe m t w))) = listeners (self w)"
  "options (self (snd (openPhotoswipe m t w))) = options (self w)"
  by (simp_all add: openPhotoswipe_def Let_def split: option.splits)

lemma preload_frame:
  "window_pswp (preload i ds w) = window_pswp w"
  "viewers (preload i ds w) = viewers w"
  "onLine (preload i ds w) = onLine w"
  "uid (self (preload i ds w)) = Suc (uid (self w))"
  "shouldOpen (self (preload i ds w)) = shouldOpen (self w)"
  "pswp (self (preload i ds w)) = pswp (self w)"
  "listeners (self (preload i ds w)) = listeners (self w)"
  "pluginClasses (self (preload i ds w)) = pluginClasses (self w)"
  by (cases ds; simp add: preload_def setDataSource_def Let_def)+

lemma loadAndOpen_cases:
  "snd (loadAndOpen i ds p w) = w \<or>
   (window_pswp w = None \<and>
    snd (loadAndOpen i ds p w) =
      preload i ds (w\<lparr>self := (self w)\<lparr>options := (options (self w))
        \<lparr>index := Some i, initialPointerPos := p\<rparr>, shouldOpen := True\<rparr>\<rparr>))"
  by (simp add: loadAndOpen_def Let_def)

lemma onThumbnailsClick_cases:
  "fst (onThumbnailsClick ev e w) = w \<or>
   (\<exists>i ds p. fst (onThumbnailsClick ev e w) = snd (loadAndOpen i ds p w))"
  by (auto simp: onThumbnailsClick_def Let_def split: option.splits)

lemma settle_tokens:
  "map token (joins (settle k outs w)) = map token (joins w)"
  "uid (self (settle k outs w)) = uid (self w)"
  by (simp_all add: settle_def thenCallback_def Let_def openPhotoswipe_frame merge_frame
      map_update list_update_same_conv split: option.splits)

lemma emitDestroy_tokens:
  "joins (emitDestroy v w) = joins w"
  "uid (self (emitDestroy v w)) = uid (self w)"
  by (simp_all add: emitDestroy_def Let_def runHandlers_frame)

lemma loadAndOpen_tokens:
  "(map token (joins (snd (loadAndOpen i ds p w))) = map token (joins w) \<and>
    uid (self (snd (loadAndOpen i ds p w))) = uid (self w)) \<or>
   (map token (joins (snd (loadAndOpen i ds p w))) = map token (joins w) @ [Suc (uid (self w))] \<and>
    uid (self (snd (loadAndOpen i ds p w))) = Suc (uid (self w)))"
  using loadAndOpen_cases [of i ds p w] by (auto simp: preload_frame preload_joins)

lemma step_tokens:
  "(map token (joins (step ev w e)) = map token (joins w) \<and>
    uid (self (step ev w e)) = uid (self w)) \<or>
   (map token (joins (step ev w e)) = map token (joins w) @ [Suc (uid (self w))] \<and>
    uid (self (step ev w e)) = Suc (uid (self w)))"
proof (cases e)
  case (Click c)
  from onThumbnailsClick_cases [of ev c w] show ?thesis
  proof
    assume "fst (onThumbnailsClick ev c w) = w"
    with Click show ?thesis by simp
  next
    assume "\<exists>i ds p. fst (onThumbnailsClick ev c w) = snd (loadAndOpen i ds p w)"
    then obtain i ds p where "fst (onThumbnailsClick ev c w) = snd (loadAndOpen i ds p w)"
      by blast
    with Click loadAndOpen_tokens [of i ds p w] show ?thesis by simp
  qed
next
  case (CallLoadAndOpen i ds p)
  then show ?thesis using loadAndOpen_tokens [of i ds p w] by simp
next
  case (CallPreload i ds)
  then show ?thesis by (simp add: preload_frame preload_joins)
next
  case (CallAddPlugin n r)
  then show ?thesis by (simp add: addPlugin_def)
next
  case (CallAddCSS h)
  then show ?thesis by (simp add: addCSS_def)
next
  case CallDestroy
  then show ?thesis by (simp add: destroy_def Let_def split: option.splits)
next
  case (JoinSettles k outs)
  then show ?thesis by (simp add: settle_tokens)
next
  case (ViewerDestroys v)
  then show ?thesis by (simp add: emitDestroy_tokens)
qed


lemma tokens_extend:
  fixes ts :: "nat list"
  assumes "sorted_wrt (<) ts" and "\<forall>t\<in>set ts. t \<le> u"
    and "ts' = ts \<and> u' = u \<or> ts' = ts @ [Suc u] \<and> u' = Suc u"
  shows "sorted_wrt (<) ts' \<and> (\<forall>t\<in>set ts'. t \<le> u')"
  using assms by (auto simp: sorted_wrt_append le_imp_less_Suc le_SucI)

lemma step_tokens_sorted:
  assumes "sorted_wrt (<) (map token (joins w))"
    and "\<forall>t\<in>set (map token (joins w)). t \<le> uid (self w)"
  shows "sorted_wrt (<) (map token (joins (step ev w e))) \<and>
    (\<forall>t\<in>set (map token (joins (step ev w e))). t \<le> uid (self (step ev w e)))"
  by (rule tokens_extend [OF assms step_tokens])

lemma run_tokens_sorted:
  "sorted_wrt (<) (map token (joins w)) \<Longrightarrow>
   \<forall>t\<in>set (map token (joins w)). t \<le> uid (self w) \<Longrightarrow>
   sorted_wrt (<) (map token (joins (run ev w evs))) \<and>
   (\<forall>t\<in>set (map token (joins (run ev w evs))). t \<le> uid (self (run ev w evs)))"
proof (induction evs arbitrary: w)
  case Nil
  then show ?case by (simp add: run_def)
next
  case (Cons e evs)
  from step_tokens_sorted [OF Cons.prems, of ev e]
  have "sorted_wrt (<) (map token (joins (run ev (step ev w e) evs))) \<and>
    (\<forall>t\<in>set (map token (joins (run ev (step ev w e) evs))).
        t \<le> uid (self (run ev (step ev w e) evs)))"
    by (intro Cons.IH) simp_all
  then show ?case by (simp add: run_def)
qed

lemma demoTwoLoads_run:
  "demoTwoLoads = run demoEnv (constructor demoOptions [(''change'', [7])] (Some True))
     [CallAddPlugin ''zoom'' (PluginPath ''zoom.js''),
      Click (demoClick 20 False), Click (demoClick 22 False)]"
  by (simp add: demoTwoLoads_def demoStart_def)

text \<open>
  C6. A call of \<^verbatim>\<open>preload\<close> adds one to \<^verbatim>\<open>_uid\<close> and its callback captures the new
  value. The tokens of the joins registered so far are, in the order of the calls, the
  tokens all calls of \<^verbatim>\<open>preload\<close> have captured: every event of the system either
  leaves that list and \<^verbatim>\<open>_uid\<close> alone or is a call of \<^verbatim>\<open>preload\<close> that appends
  \<^verbatim>\<open>_uid + 1\<close>. After any sequence of events on a new instance the list is strictly
  increasing, and the token a further call captures is greater than all of them.
\<close>

theorem preload_token_monotone:
  "uid (self (preload i ds w)) = Suc (uid (self w)) \<and>
   map token (joins (preload i ds w)) = map token (joins w) @ [uid (self (preload i ds w))] \<and>
   (\<forall>e. (map token (joins (step ev w e)) = map token (joins w) \<and>
         uid (self (step ev w e)) = uid (self w)) \<or>
        (map token (joins (step ev w e)) = map token (joins w) @ [Suc (uid (self w))] \<and>
         uid (self (step ev w e)) = Suc (uid (self w)))) \<and>
   sorted_wrt (<) (map token (joins (run ev (constructor opts ls online) evs))) \<and>
   (\<forall>t\<in>set (map token (joins (run ev (constructor opts ls online) evs))).
      t < uid (self (preload i ds (run ev (constructor opts ls online) evs))))"
proof (intro conjI allI)
  show "uid (self (preload i ds w)) = Suc (uid (self w))" by (simp add: preload_frame)
  show "map token (joins (preload i ds w)) = map token (joins w) @ [uid (self (preload i ds w))]"
    by (simp add: preload_frame preload_joins)
  fix e
  show "(map token (joins (step ev w e)) = map token (joins w) \<and>
         uid (self (step ev w e)) = uid (self w)) \<or>
        (map token (joins (step ev w e)) = map token (joins w) @ [Suc (uid (self w))] \<and>
         uid (self (step ev w e)) = Suc (uid (self w)))"
    by (rule step_tokens)
next
  have init: "sorted_wrt (<) (map token (joins (constructor opts ls online)))"
    "\<forall>t\<in>set (map token (joins (constructor opts ls online))).
        t \<le> uid (self (constructor opts ls online))"
    by (simp_all add: constructor_def)
  note r = run_tokens_sorted [OF init, of ev evs]
  from r show "sorted_wrt (<) (map token (joins (run ev (constructor opts ls online) evs)))"
    by blast
  from r have "\<forall>t\<in>set (map token (joins (run ev (constructor opts ls online) evs))).
      t < Suc (uid (self (run ev (constructor opts ls online) evs)))"
    using le_imp_less_Suc by blast
  then show "\<forall>t\<in>set (map token (joins (run ev (constructor opts ls online) evs))).
      t < uid (self (preload i ds (run ev (constructor opts ls online) evs)))"
    by (simp only: preload_frame)
qed

theorem preload_token_monotone_witness:
  "map token (joins demoTwoLoads) = [1, 2] \<and>
   sorted_wrt (<) (map token (joins demoTwoLoads)) \<and>
   uid (self (preload 0 None demoTwoLoads)) = 3 \<and>
   map token (joins (preload 0 None demoTwoLoads)) = [1, 2, 3] \<and>
   1 < uid (self (preload 0 None demoTwoLoads)) \<and>
   2 < uid (self (preload 0 None demoTwoLoads))"
  using preload_token_monotone [of 0 None demoTwoLoads demoEnv demoOptions "[(''change'', [7])]"
      "Some True" "[CallAddPlugin ''zoom'' (PluginPath ''zoom.js''),
      Click (demoClick 20 False), Click (demoClick 22 False)]"]
  unfolding demoTwoLoads_run [symmetric]
  by (simp add: demoTwoLoads_eq)

section \<open>The singleton slot\<close>

lemma openPhotoswipe_slot:
  "(viewers (snd (openPhotoswipe m t w)) = viewers w \<and>
    window_pswp (snd (openPhotoswipe m t w)) = window_pswp w) \<or>
   (window_pswp w = None \<and>
    (\<exists>x. viewers (snd (openPhotoswipe m t w)) = viewers w @ [x] \<and> \<not> destroyed x \<and>
         (initialised x \<longrightarrow> ClearPublic \<in> set (handlersFor ''destroy'' x))) \<and>
    window_pswp (snd (openPhotoswipe m t w)) = Some (length (viewers w)))"
  by (auto simp: openPhotoswipe_def Let_def newViewer_def handlersFor_last split: option.splits)

lemma settle_slot:
  "(viewers (settle k outs w) = viewers w \<and> window_pswp (settle k outs w) = window_pswp w) \<or>
   (window_pswp w = None \<and>
    (\<exists>x. viewers (settle k outs w) = viewers w @ [x] \<and> \<not> destroyed x \<and>
         (initialised x \<longrightarrow> ClearPublic \<in> set (handlersFor ''destroy'' x))) \<and>
    window_pswp (settle k outs w) = Some (length (viewers w)))"
proof (cases "k < length (joins w) \<and> \<not> settled (joins w ! k)
         \<and> length outs = length (promiseArray (joins w ! k))")
  case False
  then show ?thesis by (auto simp: settle_def)
next
  case True
  show ?thesis
  proof (cases "promiseAll outs")
    case None
    with True show ?thesis by (simp add: settle_def Let_def)
  next
    case (Some its)
    then have outs: "outs = map Fulfilled its" by (simp add: promiseAll_Some)
    with True have len: "length its = length (promiseArray (joins w ! k))" by simp
    note eq = settle_fulfilled [OF _ _ len, folded outs]
    show ?thesis
    proof (cases "shouldOpen (self w)")
      case False
      with True eq show ?thesis by (simp add: merged_def)
    next
      case wanted: True
      from openPhotoswipe_slot [of "mainModuleOf its" "token (joins w ! k)" "merged k its w"]
      show ?thesis using True wanted by (simp add: eq) (simp add: merged_def)
    qed
  qed
qed

lemma emitDestroy_slot:
  "viewers (emitDestroy v w) =
     (if v < length (viewers w) \<and> initialised (viewers w ! v) \<and> \<not> destroyed (viewers w ! v)
      then list_update (viewers w) v ((viewers w ! v)\<lparr>destroyed := True\<rparr>) else viewers w)"
  "window_pswp (emitDestroy v w) =
     (if v < length (viewers w) \<and> initialised (viewers w ! v) \<and> \<not> destroyed (viewers w ! v)
         \<and> ClearPublic \<in> set (handlersFor ''destroy'' (viewers w ! v))
      then None else window_pswp w)"
  "pswp (self (emitDestroy v w)) =
     (if v < length (viewers w) \<and> initialised (viewers w ! v) \<and> \<not> destroyed (viewers w ! v)
         \<and> ClearPublic \<in> set (handlersFor ''destroy'' (viewers w ! v))
      then None else pswp (self w))"
  by (simp_all add: emitDestroy_def Let_def runHandlers_frame runHandlers_slot)

lemma loadAndOpen_slot:
  "viewers (snd (loadAndOpen i ds p w)) = viewers w"
  "window_pswp (snd (loadAndOpen i ds p w)) = window_pswp w"
  using loadAndOpen_cases [of i ds p w] by (auto simp: preload_frame)

lemma onThumbnailsClick_slot:
  "viewers (fst (onThumbnailsClick ev e w)) = viewers w"
  "window_pswp (fst (onThumbnailsClick ev e w)) = window_pswp w"
  using onThumbnailsClick_cases [of ev e w] by (auto simp: loadAndOpen_slot)

lemma destroy_slot:
  "window_pswp (destroy w) = window_pswp w"
  "length (viewers (destroy w)) = length (viewers w)"
  "v < length (viewers w) \<Longrightarrow> destroyed (viewers (destroy w) ! v) = destroyed (viewers w ! v)"
  "v < length (viewers w) \<Longrightarrow> initialised (viewers (destroy w) ! v) = initialised (viewers w ! v)"
  "v < length (viewers w) \<Longrightarrow> handlers (viewers (destroy w) ! v) = handlers (viewers w ! v)"
  by (auto simp: destroy_def requestClose_def Let_def nth_list_update split: option.splits)

text \<open>How an event changes the slot.\<close>

lemma step_slot:
  "window_pswp (step ev w e) = window_pswp w \<or>
   (window_pswp w = None \<and> (\<exists>k outs. e = JoinSettles k outs) \<and>
    window_pswp (step ev w e) = Some (length (viewers w)) \<and>
    length (viewers (step ev w e)) = Suc (length (viewers w))) \<or>
   ((\<exists>v. e = ViewerDestroys v) \<and> window_pswp (step ev w e) = None)"
proof (cases e)
  case (JoinSettles k outs)
  with settle_slot [of k outs w] show ?thesis by auto
next
  case (ViewerDestroys v)
  then show ?thesis by (simp add: emitDestroy_slot)
qed (simp_all add: onThumbnailsClick_slot loadAndOpen_slot preload_frame addPlugin_def
    addCSS_def destroy_slot)

lemma singletonInv_append:
  assumes "singletonInv w" and "window_pswp w = None"
    and "viewers w' = viewers w @ [x]" and "\<not> destroyed x"
    and "initialised x \<longrightarrow> ClearPublic \<in> set (handlersFor ''destroy'' x)"
    and "window_pswp w' = Some (length (viewers w))"
  shows "singletonInv w'"
proof -
  from assms(1,2) have dead: "\<forall>v < length (viewers w). destroyed (viewers w ! v)"
    and h: "\<forall>v < length (viewers w). initialised (viewers w ! v) \<longrightarrow>
           ClearPublic \<in> set (handlersFor ''destroy'' (viewers w ! v))"
    by (auto simp: singletonInv_def)
  show ?thesis
    unfolding singletonInv_def assms(3,6)
    using dead h assms(4,5) by (auto simp: nth_append less_Suc_eq)
qed

lemma singletonInv_same:
  assumes "singletonInv w" and "window_pswp w' = window_pswp w"
    and "length (viewers w') = length (viewers w)"
    and "\<forall>v < length (viewers w). destroyed (viewers w' ! v) = destroyed (viewers w ! v) \<and>
       initialised (viewers w' ! v) = initialised (viewers w ! v) \<and>
       handlers (viewers w' ! v) = handlers (viewers w ! v)"
  shows "singletonInv w'"
proof -
  from assms(4) have d: "\<And>v. v < length (viewers w) \<Longrightarrow>
      destroyed (viewers w' ! v) = destroyed (viewers w ! v)"
    and i: "\<And>v. v < length (viewers w) \<Longrightarrow>
      initialised (viewers w' ! v) = initialised (viewers w ! v)"
    and h0: "\<And>v. v < length (viewers w) \<Longrightarrow>
      handlers (viewers w' ! v) = handlers (viewers w ! v)"
    by blast+
  have h: "\<And>v. v < length (viewers w) \<Longrightarrow>
      handlersFor ''destroy'' (viewers w' ! v) = handlersFor ''destroy'' (viewers w ! v)"
    unfolding handlersFor_def using h0 by presburger
  from assms(1) have a: "\<And>v. v < length (viewers w) \<Longrightarrow> \<not> destroyed (viewers w ! v) \<Longrightarrow>
      window_pswp w = Some v"
    and b: "\<And>v. window_pswp w = Some v \<Longrightarrow>
      v < length (viewers w) \<and> \<not> destroyed (viewers w ! v)"
    and c: "\<And>v. v < length (viewers w) \<Longrightarrow> initialised (viewers w ! v) \<Longrightarrow>
      ClearPublic \<in> set (handlersFor ''destroy'' (viewers w ! v))"
    unfolding singletonInv_def by blast+
  show ?thesis
    unfolding singletonInv_def assms(2,3)
  proof (intro conjI)
    show "\<forall>v<length (viewers w). \<not> destroyed (viewers w' ! v) \<longrightarrow> window_pswp w = Some v"
      using a d by blast
    show "\<forall>v. window_pswp w = Some v \<longrightarrow> v < length (viewers w) \<and> \<not> destroyed (viewers w' ! v)"
      using b d by blast
    show "\<forall>v<length (viewers w). initialised (viewers w' ! v) \<longrightarrow>
        ClearPublic \<in> set (handlersFor ''destroy'' (viewers w' ! v))"
    proof (intro allI impI)
      fix v assume v: "v < length (viewers w)" "initialised (viewers w' ! v)"
      then have "initialised (viewers w ! v)" using i by blast
      from c [OF v(1) this] show "ClearPublic \<in> set (handlersFor ''destroy'' (viewers w' ! v))"
        by (simp only: h [OF v(1)])
    qed
  qed
qed

lemma singletonInv_emitDestroy:
  assumes "singletonInv w"
  shows "singletonInv (emitDestroy v w)"
proof (cases "v < length (viewers w) \<and> initialised (viewers w ! v) \<and> \<not> destroyed (viewers w ! v)")
  case False
  then have "emitDestroy v w = w" unfolding emitDestroy_def by (simp only: if_False)
  with assms show ?thesis by simp
next
  case True
  from assms have a: "\<And>u. u < length (viewers w) \<Longrightarrow> \<not> destroyed (viewers w ! u) \<Longrightarrow>
      window_pswp w = Some u"
    and c: "\<And>u. u < length (viewers w) \<Longrightarrow> initialised (viewers w ! u) \<Longrightarrow>
      ClearPublic \<in> set (handlersFor ''destroy'' (viewers w ! u))"
    unfolding singletonInv_def by blast+
  from True a have slot: "window_pswp w = Some v" by blast
  from True c have h: "ClearPublic \<in> set (handlersFor ''destroy'' (viewers w ! v))" by blast
  have others: "destroyed (viewers w ! u)" if "u < length (viewers w)" "u \<noteq> v" for u
  proof (rule ccontr)
    assume "\<not> destroyed (viewers w ! u)"
    with a that(1) have "window_pswp w = Some u" by blast
    with slot that(2) show False by simp
  qed
  define vs where "vs = list_update (viewers w) v ((viewers w ! v)\<lparr>destroyed := True\<rparr>)"
  have len: "length vs = length (viewers w)" by (simp add: vs_def)
  have dead: "destroyed (vs ! u)" if "u < length (viewers w)" for u
    using that others [of u] by (cases "u = v") (simp_all add: vs_def)
  have hs: "ClearPublic \<in> set (handlersFor ''destroy'' (vs ! u))"
    if "u < length (viewers w)" "initialised (vs ! u)" for u
    using that c [of u] by (cases "u = v") (simp_all add: vs_def handlersFor_def)
  from True h have s: "window_pswp (emitDestroy v w) = None"
    and vw: "viewers (emitDestroy v w) = vs"
    by (simp_all add: emitDestroy_slot vs_def)
  show ?thesis
    unfolding singletonInv_def s vw len
    using dead hs by blast
qed

lemma singletonInv_eq:
  assumes "singletonInv w" and "window_pswp w' = window_pswp w" and "viewers w' = viewers w"
  shows "singletonInv w'"
  using assms(1) unfolding singletonInv_def assms(2,3) .

lemma singletonInv_destroy:
  assumes "singletonInv w"
  shows "singletonInv (destroy w)"
proof (rule singletonInv_same [OF assms])
  show "window_pswp (destroy w) = window_pswp w" by (rule destroy_slot)
  show "length (viewers (destroy w)) = length (viewers w)" by (rule destroy_slot)
  show "\<forall>v<length (viewers w).
       destroyed (viewers (destroy w) ! v) = destroyed (viewers w ! v) \<and>
       initialised (viewers (destroy w) ! v) = initialised (viewers w ! v) \<and>
       handlers (viewers (destroy w) ! v) = handlers (viewers w ! v)"
    using destroy_slot(3,4,5) [of _ w] by blast
qed

lemma singletonInv_step:
  assumes "singletonInv w"
  shows "singletonInv (step ev w e)"
proof (cases e)
  case (Click c)
  have "singletonInv (fst (onThumbnailsClick ev c w))"
    by (rule singletonInv_eq [OF assms]) (rule onThumbnailsClick_slot)+
  with Click show ?thesis by simp
next
  case (CallLoadAndOpen i ds p)
  have "singletonInv (snd (loadAndOpen i ds p w))"
    by (rule singletonInv_eq [OF assms]) (rule loadAndOpen_slot)+
  with CallLoadAndOpen show ?thesis by simp
next
  case (CallPreload i ds)
  have "singletonInv (preload i ds w)"
    by (rule singletonInv_eq [OF assms]) (rule preload_frame)+
  with CallPreload show ?thesis by simp
next
  case (CallAddPlugin n r)
  have "singletonInv (addPlugin n r w)"
    by (rule singletonInv_eq [OF assms]) (simp_all add: addPlugin_def)
  with CallAddPlugin show ?thesis by simp
next
  case (CallAddCSS h)
  have "singletonInv (addCSS h w)"
    by (rule singletonInv_eq [OF assms]) (simp_all add: addCSS_def)
  with CallAddCSS show ?thesis by simp
next
  case CallDestroy
  with assms show ?thesis by (simp add: singletonInv_destroy)
next
  case (JoinSettles k outs)
  from settle_slot [of k outs w] have "singletonInv (settle k outs w)"
  proof
    assume "viewers (settle k outs w) = viewers w \<and>
      window_pswp (settle k outs w) = window_pswp w"
    then show ?thesis using singletonInv_eq [OF assms] by blast
  next
    assume h: "window_pswp w = None \<and>
      (\<exists>x. viewers (settle k outs w) = viewers w @ [x] \<and> \<not> destroyed x \<and>
         (initialised x \<longrightarrow> ClearPublic \<in> set (handlersFor ''destroy'' x))) \<and>
      window_pswp (settle k outs w) = Some (length (viewers w))"
    then obtain x where "viewers (settle k outs w) = viewers w @ [x]" "\<not> destroyed x"
      "initialised x \<longrightarrow> ClearPublic \<in> set (handlersFor ''destroy'' x)" by blast
    with h show ?thesis using singletonInv_append [OF assms, of "settle k outs w" x] by blast
  qed
  with JoinSettles show ?thesis by simp
next
  case (ViewerDestroys v)
  with assms show ?thesis by (simp add: singletonInv_emitDestroy)
qed

lemma singletonInv_run: "singletonInv w \<Longrightarrow> singletonInv (run ev w evs)"
  by (induction evs arbitrary: w) (simp_all add: run_def singletonInv_step)

lemma singletonInv_constructor: "singletonInv (constructor opts ls online)"
  by (simp add: singletonInv_def constructor_def)

lemma demoOpened_run:
  "demoOpened = run demoEnv (constructor demoOptions [(''change'', [7])] (Some True))
     [Click (demoClick 21 False), JoinSettles 0 demoModule]"
  by (simp add: demoOpened_def demoStart_def)

lemma demoOpened_viewer:
  "length (viewers demoOpened) = 1" "initialised (viewers demoOpened ! 0)"
  "\<not> destroyed (viewers demoOpened ! 0)"
  by (simp_all add: demoOpened_def run_def demo_defs method_defs Let_def)

lemma demoLoading_run:
  "demoLoading = run demoEnv (constructor demoOptions [(''change'', [7])] (Some True))
     [Click (demoClick 21 False)]"
  by (simp add: demoLoading_def demoStart_def)

lemma demoLoading_open:
  "window_pswp demoLoading = None"
  "window_pswp (step demoEnv demoLoading (JoinSettles 0 demoModule)) = Some 0"
  by (simp_all add: demoLoading_def run_def demo_defs method_defs Let_def)

text \<open>
  C3. In every world that a sequence of events reaches from a new instance: a viewer
  that has not emitted \<^verbatim>\<open>destroy\<close> is the viewer in \<^verbatim>\<open>window.pswp\<close>, so there is at
  most one, and the slot holds no other. An event changes the slot in two ways only: a
  settled join whose call of \<^verbatim>\<open>_openPhotoswipe\<close> finds the slot empty and stores the
  viewer it constructs, and the \<^verbatim>\<open>destroy\<close> notification of a viewer, which empties
  it. A call of \<^verbatim>\<open>_openPhotoswipe\<close> that opens a viewer starts with the slot empty,
  and after the notification of the open viewer the slot and \<^verbatim>\<open>this.pswp\<close> are empty.
\<close>

theorem singleton_slot:
  assumes "w = run ev (constructor opts ls online) evs"
  shows "(\<forall>v < length (viewers w). \<not> destroyed (viewers w ! v) \<longrightarrow> window_pswp w = Some v) \<and>
    (\<forall>v. window_pswp w = Some v \<longrightarrow> v < length (viewers w) \<and> \<not> destroyed (viewers w ! v)) \<and>
    (\<forall>u v. u < length (viewers w) \<and> v < length (viewers w) \<and>
        \<not> destroyed (viewers w ! u) \<and> \<not> destroyed (viewers w ! v) \<longrightarrow> u = v) \<and>
    (\<forall>e. window_pswp (step ev w e) = window_pswp w \<or>
        (window_pswp w = None \<and> (\<exists>k outs. e = JoinSettles k outs) \<and>
         window_pswp (step ev w e) = Some (length (viewers w)) \<and>
         length (viewers (step ev w e)) = Suc (length (viewers w))) \<or>
        ((\<exists>v. e = ViewerDestroys v) \<and> window_pswp (step ev w e) = None)) \<and>
    (\<forall>m t v. fst (openPhotoswipe m t w) = Opened v \<longrightarrow> window_pswp w = None) \<and>
    (\<forall>v. v < length (viewers w) \<and> initialised (viewers w ! v) \<and> \<not> destroyed (viewers w ! v)
        \<longrightarrow> window_pswp (step ev w (ViewerDestroys v)) = None \<and>
            pswp (self (step ev w (ViewerDestroys v))) = None)"
proof -
  have "singletonInv w"
    unfolding assms by (rule singletonInv_run) (rule singletonInv_constructor)
  then have a: "\<forall>v < length (viewers w). \<not> destroyed (viewers w ! v) \<longrightarrow> window_pswp w = Some v"
    and b: "\<forall>v. window_pswp w = Some v \<longrightarrow> v < length (viewers w) \<and> \<not> destroyed (viewers w ! v)"
    and c: "\<forall>v < length (viewers w). initialised (viewers w ! v) \<longrightarrow>
           ClearPublic \<in> set (handlersFor ''destroy'' (viewers w ! v))"
    unfolding singletonInv_def by blast+
  have one: "\<forall>u v. u < length (viewers w) \<and> v < length (viewers w) \<and>
        \<not> destroyed (viewers w ! u) \<and> \<not> destroyed (viewers w ! v) \<longrightarrow> u = v"
  proof (intro allI impI)
    fix u v
    assume h: "u < length (viewers w) \<and> v < length (viewers w) \<and>
        \<not> destroyed (viewers w ! u) \<and> \<not> destroyed (viewers w ! v)"
    with a have "window_pswp w = Some u" "window_pswp w = Some v" by blast+
    then show "u = v" by simp
  qed
  have gate: "\<forall>m t v. fst (openPhotoswipe m t w) = Opened v \<longrightarrow> window_pswp w = None"
    using openPhotoswipe_opened by blast
  have closed: "\<forall>v. v < length (viewers w) \<and> initialised (viewers w ! v) \<and>
        \<not> destroyed (viewers w ! v)
        \<longrightarrow> window_pswp (step ev w (ViewerDestroys v)) = None \<and>
            pswp (self (step ev w (ViewerDestroys v))) = None"
  proof (intro allI impI)
    fix v
    assume h: "v < length (viewers w) \<and> initialised (viewers w ! v) \<and>
        \<not> destroyed (viewers w ! v)"
    with c have "ClearPublic \<in> set (handlersFor ''destroy'' (viewers w ! v))" by blast
    with h show "window_pswp (step ev w (ViewerDestroys v)) = None \<and>
            pswp (self (step ev w (ViewerDestroys v))) = None"
      by (simp add: emitDestroy_slot)
  qed
  from a b one gate closed step_slot [of ev w] show ?thesis by blast
qed

theorem singleton_slot_witness:
  "demoOpened = run demoEnv (constructor demoOptions [(''change'', [7])] (Some True))
     [Click (demoClick 21 False), JoinSettles 0 demoModule] \<and>
   window_pswp demoOpened = Some 0 \<and>
   length (viewers demoOpened) = 1 \<and>
   initialised (viewers demoOpened ! 0) \<and> \<not> destroyed (viewers demoOpened ! 0) \<and>
   window_pswp (step demoEnv demoOpened (ViewerDestroys 0)) = None \<and>
   pswp (self (step demoEnv demoOpened (ViewerDestroys 0))) = None \<and>
   window_pswp (step demoEnv demoOpened (Click (demoClick 20 False))) = Some 0 \<and>
   window_pswp demoLoading = None \<and>
   window_pswp (step demoEnv demoLoading (JoinSettles 0 demoModule)) = Some 0 \<and>
   length (viewers (step demoEnv demoLoading (JoinSettles 0 demoModule))) = 1"
proof -
  note r = singleton_slot [OF demoOpened_run]
  note q = singleton_slot [OF demoLoading_run]
  have live: "0 < length (viewers demoOpened) \<and> initialised (viewers demoOpened ! 0) \<and>
      \<not> destroyed (viewers demoOpened ! 0)"
    by (simp add: demoOpened_viewer)
  from r live have a: "window_pswp demoOpened = Some 0" by blast
  from r live have b: "window_pswp (step demoEnv demoOpened (ViewerDestroys 0)) = None \<and>
      pswp (self (step demoEnv demoOpened (ViewerDestroys 0))) = None" by blast
  from r have "window_pswp (step demoEnv demoOpened (Click (demoClick 20 False)))
        = window_pswp demoOpened \<or>
      (window_pswp demoOpened = None \<and>
       (\<exists>k outs. Click (demoClick 20 False) = JoinSettles k outs) \<and>
       window_pswp (step demoEnv demoOpened (Click (demoClick 20 False)))
         = Some (length (viewers demoOpened)) \<and>
       length (viewers (step demoEnv demoOpened (Click (demoClick 20 False))))
         = Suc (length (viewers demoOpened))) \<or>
      ((\<exists>v. Click (demoClick 20 False) = ViewerDestroys v) \<and>
       window_pswp (step demoEnv demoOpened (Click (demoClick 20 False))) = None)"
    by blast
  with a have c: "window_pswp (step demoEnv demoOpened (Click (demoClick 20 False))) = Some 0"
    by simp
  from q have "window_pswp (step demoEnv demoLoading (JoinSettles 0 demoModule))
        = window_pswp demoLoading \<or>
      (window_pswp demoLoading = None \<and>
       (\<exists>k outs. JoinSettles 0 demoModule = JoinSettles k outs) \<and>
       window_pswp (step demoEnv demoLoading (JoinSettles 0 demoModule))
         = Some (length (viewers demoLoading)) \<and>
       length (viewers (step demoEnv demoLoading (JoinSettles 0 demoModule)))
         = Suc (length (viewers demoLoading))) \<or>
      ((\<exists>v. JoinSettles 0 demoModule = ViewerDestroys v) \<and>
       window_pswp (step demoEnv demoLoading (JoinSettles 0 demoModule)) = None)"
    by blast
  with demoLoading_open have d: "length (viewers (step demoEnv demoLoading (JoinSettles 0 demoModule)))
      = Suc (length (viewers demoLoading))" by simp
  have e: "viewers demoLoading = []"
    by (simp add: demoLoading_def run_def demo_defs method_defs Let_def)
  from a b c d e show ?thesis
    using demoOpened_run demoOpened_viewer demoLoading_open by simp
qed

section \<open>The flag and the gate\<close>

text \<open>
  With a token that is not the current one while \<^verbatim>\<open>shouldOpen\<close> is true, or with the
  slot occupied, \<^verbatim>\<open>_openPhotoswipe\<close> returns without constructing a viewer and without
  an error.
\<close>

lemma openPhotoswipe_rejected:
  assumes "(t \<noteq> uid (self w) \<and> shouldOpen (self w)) \<or> window_pswp w \<noteq> None"
  shows "(fst (openPhotoswipe m t w) = Cancelled \<or> fst (openPhotoswipe m t w) = AlreadyOpen) \<and>
    viewers (snd (openPhotoswipe m t w)) = viewers w \<and>
    window_pswp (snd (openPhotoswipe m t w)) = window_pswp w \<and>
    pswp (self (snd (openPhotoswipe m t w))) = pswp (self w)"
  using assms by (auto simp: openPhotoswipe_def Let_def)

text \<open>
  The callback of a join calls \<^verbatim>\<open>_openPhotoswipe\<close> only when \<^verbatim>\<open>shouldOpen\<close> is true.
  So a join that settles with a token that is not the current one, or with the flag false,
  or with the slot occupied, constructs no viewer.
\<close>

lemma join_not_admitted:
  assumes "k < length (joins w)" and "\<not> settled (joins w ! k)"
    and "length its = length (promiseArray (joins w ! k))"
    and "token (joins w ! k) \<noteq> uid (self w) \<or> \<not> shouldOpen (self w) \<or> window_pswp w \<noteq> None"
  shows "viewers (settle k (map Fulfilled its) w) = viewers w \<and>
    window_pswp (settle k (map Fulfilled its) w) = window_pswp w \<and>
    pswp (self (settle k (map Fulfilled its) w)) = pswp (self w)"
proof (cases "shouldOpen (self w)")
  case False
  then show ?thesis
    by (simp add: settle_fulfilled [OF assms(1-3)]) (simp add: merged_def merge_frame)
next
  case True
  with assms(4) have "(token (joins w ! k) \<noteq> uid (self (merged k its w)) \<and>
      shouldOpen (self (merged k its w))) \<or> window_pswp (merged k its w) \<noteq> None"
    by (simp add: merged_def merge_frame)
  from openPhotoswipe_rejected [OF this, of "mainModuleOf its"] True show ?thesis
    by (simp add: settle_fulfilled [OF assms(1-3)]) (simp add: merged_def merge_frame)
qed

lemma openPhotoswipe_shouldOpen:
  "shouldOpen (self w) \<Longrightarrow> \<not> shouldOpen (self (snd (openPhotoswipe m t w))) \<Longrightarrow> t = uid (self w)"
  by (auto simp: openPhotoswipe_def Let_def split: if_splits)

lemma loadAndOpen_shouldOpen:
  "shouldOpen (self w) \<Longrightarrow> shouldOpen (self (snd (loadAndOpen i ds p w)))"
  using loadAndOpen_cases [of i ds p w] by (auto simp: preload_frame)

lemma onThumbnailsClick_shouldOpen:
  "shouldOpen (self w) \<Longrightarrow> shouldOpen (self (fst (onThumbnailsClick ev e w)))"
  using onThumbnailsClick_cases [of ev e w] by (auto simp: loadAndOpen_shouldOpen)

lemma rejected_join_frame:
  "Rejected \<in> set outs \<Longrightarrow> self (settle k outs w) = self w"
  by (simp add: settle_def Let_def promiseAll_None [symmetric])

lemma settle_shouldOpen:
  assumes "shouldOpen (self w)" and "\<not> shouldOpen (self (settle k outs w))"
  shows "k < length (joins w) \<and> \<not> settled (joins w ! k) \<and>
    token (joins w ! k) = uid (self w) \<and> Rejected \<notin> set outs"
proof -
  have en: "k < length (joins w) \<and> \<not> settled (joins w ! k)
         \<and> length outs = length (promiseArray (joins w ! k))"
    using assms by (auto simp: settle_def split: if_splits)
  have ok: "Rejected \<notin> set outs"
  proof
    assume "Rejected \<in> set outs"
    from rejected_join_frame [OF this] assms show False by simp
  qed
  then obtain its where outs: "outs = map Fulfilled its"
    using promiseAll_None promiseAll_Some by (cases "promiseAll outs") auto
  with en have len: "length its = length (promiseArray (joins w ! k))" by simp
  from en settle_fulfilled [OF _ _ len] assms(1)
  have "settle k outs w
      = snd (openPhotoswipe (mainModuleOf its) (token (joins w ! k)) (merged k its w))"
    by (simp add: outs)
  with assms(2) have "\<not> shouldOpen (self (snd (openPhotoswipe (mainModuleOf its)
      (token (joins w ! k)) (merged k its w))))" by simp
  moreover have "shouldOpen (self (merged k its w))"
    using assms(1) by (simp add: merged_def merge_frame)
  ultimately have "token (joins w ! k) = uid (self (merged k its w))"
    using openPhotoswipe_shouldOpen by blast
  then have "token (joins w ! k) = uid (self w)" by (simp add: merged_def merge_frame)
  with en ok show ?thesis by blast
qed

lemma step_shouldOpen:
  assumes "shouldOpen (self w)" and "\<not> shouldOpen (self (step ev w e))"
  shows "e = CallDestroy \<or>
    (\<exists>k outs. e = JoinSettles k outs \<and> k < length (joins w) \<and> \<not> settled (joins w ! k) \<and>
        token (joins w ! k) = uid (self w) \<and> Rejected \<notin> set outs)"
proof (cases e)
  case (Click c)
  with assms onThumbnailsClick_shouldOpen show ?thesis by simp
next
  case (CallLoadAndOpen i ds p)
  with assms loadAndOpen_shouldOpen show ?thesis by simp
next
  case (CallPreload i ds)
  with assms show ?thesis by (simp add: preload_frame)
next
  case (CallAddPlugin n r)
  with assms show ?thesis by (simp add: addPlugin_def)
next
  case (CallAddCSS h)
  with assms show ?thesis by (simp add: addCSS_def)
next
  case CallDestroy
  then show ?thesis by simp
next
  case (JoinSettles k outs)
  with assms settle_shouldOpen [of w k outs] show ?thesis by simp
next
  case (ViewerDestroys v)
  with assms show ?thesis by (simp add: emitDestroy_def Let_def runHandlers_frame split: if_splits)
qed

lemma demoLoading_flag:
  "shouldOpen (self demoLoading)"
  "\<not> shouldOpen (self (step demoEnv demoLoading (JoinSettles 0 demoModule)))"
  "uid (self demoLoading) = 1"
  by (simp_all add: demoLoading_def run_def demo_defs method_defs Let_def)

lemma demoClosed_eq:
  "uid (self demoClosed) = 2" "\<not> shouldOpen (self demoClosed)" "window_pswp demoClosed = None"
  "length (viewers demoClosed) = 1" "listeners (self demoClosed) = Some [(''change'', [7])]"
  by (simp_all add: demoClosed_def demoTwoLoads_def demoResolved_def run_def demo_defs
      method_defs Let_def)

text \<open>
  C2, as the specification states it, fails: \<^verbatim>\<open>preload\<close> does not write
  \<^verbatim>\<open>shouldOpen\<close>. Called on a new instance, where the flag is not set, it leaves it
  unset.
\<close>

theorem preload_leaves_shouldOpen_counterexample:
  "\<not> shouldOpen (self (preload 1 None demoStart))"
  by (simp add: preload_frame) (simp add: demo_defs)

text \<open>
  C2, amended. \<^verbatim>\<open>preload\<close> leaves \<^verbatim>\<open>shouldOpen\<close> as it finds it. It is
  \<^verbatim>\<open>loadAndOpen\<close> that sets the flag, when the slot is empty, and it does so before it
  calls \<^verbatim>\<open>preload\<close>, hence before the token is incremented. No event turns a true flag
  into a false one except \<^verbatim>\<open>destroy\<close> and a join that carries the current token and
  settles with every acquisition fulfilled, whose callback reaches \<^verbatim>\<open>_openPhotoswipe\<close>.
\<close>

theorem shouldOpen_set_by_loadAndOpen:
  "shouldOpen (self (preload i ds w)) = shouldOpen (self w) \<and>
   (window_pswp w = None \<longrightarrow>
      shouldOpen (self (snd (loadAndOpen i ds p w))) \<and>
      snd (loadAndOpen i ds p w) =
        preload i ds (w\<lparr>self := (self w)\<lparr>options := (options (self w))
          \<lparr>index := Some i, initialPointerPos := p\<rparr>, shouldOpen := True\<rparr>\<rparr>)) \<and>
   (\<forall>e. shouldOpen (self w) \<and> \<not> shouldOpen (self (step ev w e)) \<longrightarrow>
      e = CallDestroy \<or>
      (\<exists>k outs. e = JoinSettles k outs \<and> k < length (joins w) \<and> \<not> settled (joins w ! k) \<and>
          token (joins w ! k) = uid (self w) \<and> Rejected \<notin> set outs))"
proof (intro conjI allI impI)
  show "shouldOpen (self (preload i ds w)) = shouldOpen (self w)" by (simp add: preload_frame)
next
  assume "window_pswp w = None"
  then show "shouldOpen (self (snd (loadAndOpen i ds p w)))"
    by (simp add: loadAndOpen_def Let_def preload_frame)
next
  assume "window_pswp w = None"
  then show "snd (loadAndOpen i ds p w) =
        preload i ds (w\<lparr>self := (self w)\<lparr>options := (options (self w))
          \<lparr>index := Some i, initialPointerPos := p\<rparr>, shouldOpen := True\<rparr>\<rparr>)"
    by (simp add: loadAndOpen_def Let_def)
next
  fix e
  assume "shouldOpen (self w) \<and> \<not> shouldOpen (self (step ev w e))"
  then show "e = CallDestroy \<or>
      (\<exists>k outs. e = JoinSettles k outs \<and> k < length (joins w) \<and> \<not> settled (joins w ! k) \<and>
          token (joins w ! k) = uid (self w) \<and> Rejected \<notin> set outs)"
    using step_shouldOpen by blast
qed

theorem shouldOpen_set_by_loadAndOpen_witness:
  "\<not> shouldOpen (self demoStart) \<and> window_pswp demoStart = None \<and>
   shouldOpen (self (snd (loadAndOpen 1 None None demoStart))) \<and>
   shouldOpen (self (preload 0 None (snd (loadAndOpen 1 None None demoStart)))) \<and>
   shouldOpen (self demoLoading) \<and>
   \<not> shouldOpen (self (step demoEnv demoLoading (JoinSettles 0 demoModule))) \<and>
   token (joins demoLoading ! 0) = uid (self demoLoading)"
proof -
  note r = shouldOpen_set_by_loadAndOpen [of 1 None demoStart None demoEnv]
  note q = shouldOpen_set_by_loadAndOpen
    [of 0 None "snd (loadAndOpen 1 None None demoStart)" None demoEnv]
  note s = shouldOpen_set_by_loadAndOpen [of 0 None demoLoading None demoEnv]
  have free: "window_pswp demoStart = None" by (rule demoStart_slot)
  with r have a: "shouldOpen (self (snd (loadAndOpen 1 None None demoStart)))" by blast
  with q have b: "shouldOpen (self (preload 0 None (snd (loadAndOpen 1 None None demoStart))))"
    by blast
  from s demoLoading_flag(1,2)
  have "JoinSettles 0 demoModule = CallDestroy \<or>
      (\<exists>k outs. JoinSettles 0 demoModule = JoinSettles k outs \<and> k < length (joins demoLoading) \<and>
          \<not> settled (joins demoLoading ! k) \<and>
          token (joins demoLoading ! k) = uid (self demoLoading) \<and> Rejected \<notin> set outs)"
    by blast
  then have c: "token (joins demoLoading ! 0) = uid (self demoLoading)" by auto
  have "\<not> shouldOpen (self demoStart)" by (simp add: demo_defs)
  with free a b c demoLoading_flag show ?thesis by simp
qed

subsection \<open>The calls of the gate\<close>

lemma gateCall_Some:
  assumes "gateCall k outs w = Some (m, t, w1)"
  shows "\<exists>its. outs = map Fulfilled its \<and> k < length (joins w) \<and> \<not> settled (joins w ! k) \<and>
    length its = length (promiseArray (joins w ! k)) \<and> shouldOpen (self w) \<and>
    m = mainModuleOf its \<and> t = token (joins w ! k) \<and> w1 = merged k its w"
proof -
  from assms have en: "k < length (joins w) \<and> \<not> settled (joins w ! k)
         \<and> length outs = length (promiseArray (joins w ! k))"
    by (auto simp: gateCall_def split: if_splits)
  with assms obtain its where its: "promiseAll outs = Some its"
    by (cases "promiseAll outs") (auto simp: gateCall_def)
  then have outs: "outs = map Fulfilled its" by (simp add: promiseAll_Some)
  from assms en its have "shouldOpen (self (merged k its w)) \<and>
      m = mainModuleOf its \<and> t = token (joins w ! k) \<and> w1 = merged k its w"
    by (auto simp: gateCall_def Let_def split: if_splits)
  moreover have "shouldOpen (self (merged k its w)) = shouldOpen (self w)"
    by (simp add: merged_def merge_frame)
  ultimately show ?thesis using en outs by auto
qed

lemma gateCall_None:
  assumes "gateCall k outs w = None"
  shows "viewers (settle k outs w) = viewers w \<and>
    window_pswp (settle k outs w) = window_pswp w \<and>
    pswp (self (settle k outs w)) = pswp (self w)"
proof (cases "k < length (joins w) \<and> \<not> settled (joins w ! k)
         \<and> length outs = length (promiseArray (joins w ! k))")
  case False
  then have "settle k outs w = w" by (auto simp: settle_def)
  then show ?thesis by simp
next
  case True
  show ?thesis
  proof (cases "promiseAll outs")
    case None
    with True show ?thesis by (simp add: settle_def Let_def)
  next
    case (Some its)
    then have outs: "outs = map Fulfilled its" by (simp add: promiseAll_Some)
    with True have len: "length its = length (promiseArray (joins w ! k))" by simp
    from assms True Some have "\<not> shouldOpen (self (merged k its w))"
      by (auto simp: gateCall_def Let_def split: if_splits)
    then have "\<not> shouldOpen (self w)" by (simp add: merged_def merge_frame)
    with True settle_fulfilled [OF _ _ len] show ?thesis
      by (simp add: outs) (simp add: merged_def merge_frame)
  qed
qed

text \<open>
  A join that settles with a token that is not the current one, or with the flag false,
  or with the slot occupied, adds no viewer, whatever the outcomes.
\<close>

lemma settle_not_admitted:
  assumes "token (joins w ! k) \<noteq> uid (self w) \<or> \<not> shouldOpen (self w) \<or> window_pswp w \<noteq> None"
  shows "length (viewers (settle k outs w)) = length (viewers w) \<and>
    window_pswp (settle k outs w) = window_pswp w \<and>
    pswp (self (settle k outs w)) = pswp (self w)"
proof (cases "gateCall k outs w")
  case None
  from gateCall_None [OF this] show ?thesis by simp
next
  case (Some c)
  then obtain m t w1 where c: "gateCall k outs w = Some (m, t, w1)" by (cases c) auto
  from gateCall_Some [OF this] obtain its where its: "outs = map Fulfilled its"
    "k < length (joins w)" "\<not> settled (joins w ! k)"
    "length its = length (promiseArray (joins w ! k))" by blast
  from join_not_admitted [OF its(2-4) assms] show ?thesis by (simp add: its(1))
qed

lemma settle_adds_viewer:
  assumes "length (viewers (settle k outs w)) \<noteq> length (viewers w)"
  shows "k < length (joins w) \<and> \<not> settled (joins w ! k) \<and> token (joins w ! k) = uid (self w) \<and>
    shouldOpen (self w) \<and> window_pswp w = None \<and> Rejected \<notin> set outs"
proof -
  from assms settle_not_admitted [of w k outs]
  have adm: "token (joins w ! k) = uid (self w) \<and> shouldOpen (self w) \<and> window_pswp w = None"
    by blast
  from assms gateCall_None [of k outs w] obtain c where "gateCall k outs w = Some c"
    by (cases "gateCall k outs w") auto
  then obtain m t w1 where "gateCall k outs w = Some (m, t, w1)" by (cases c) auto
  from gateCall_Some [OF this] have "k < length (joins w) \<and> \<not> settled (joins w ! k) \<and>
      Rejected \<notin> set outs" by auto
  with adm show ?thesis by blast
qed

lemma step_adds_viewer:
  assumes "length (viewers (step ev w e)) \<noteq> length (viewers w)"
  shows "\<exists>k outs. e = JoinSettles k outs \<and> k < length (joins w) \<and> \<not> settled (joins w ! k) \<and>
    token (joins w ! k) = uid (self w) \<and> shouldOpen (self w) \<and> window_pswp w = None \<and>
    Rejected \<notin> set outs"
proof (cases e)
  case (Click c)
  with assms show ?thesis by (simp add: onThumbnailsClick_slot)
next
  case (CallLoadAndOpen i ds p)
  with assms show ?thesis by (simp add: loadAndOpen_slot)
next
  case (CallPreload i ds)
  with assms show ?thesis by (simp add: preload_frame)
next
  case (CallAddPlugin n r)
  with assms show ?thesis by (simp add: addPlugin_def)
next
  case (CallAddCSS h)
  with assms show ?thesis by (simp add: addCSS_def)
next
  case CallDestroy
  with assms show ?thesis by (simp add: destroy_slot)
next
  case (JoinSettles k outs)
  with assms settle_adds_viewer [of k outs w] show ?thesis by simp
next
  case (ViewerDestroys v)
  with assms show ?thesis by (simp add: emitDestroy_slot split: if_splits)
qed

lemma run_tokens_increase:
  assumes "w = run ev (constructor opts ls online) evs" and "k1 < k2" and "k2 < length (joins w)"
  shows "token (joins w ! k1) < token (joins w ! k2) \<and> token (joins w ! k2) \<le> uid (self w)"
proof -
  have init: "sorted_wrt (<) (map token (joins (constructor opts ls online)))"
    "\<forall>t\<in>set (map token (joins (constructor opts ls online))).
        t \<le> uid (self (constructor opts ls online))"
    by (simp_all add: constructor_def)
  from run_tokens_sorted [OF init, of ev evs]
  have s: "sorted_wrt (<) (map token (joins w))"
    and b: "\<forall>t\<in>set (map token (joins w)). t \<le> uid (self w)"
    unfolding assms(1) by blast+
  from s assms(2,3) have "map token (joins w) ! k1 < map token (joins w) ! k2"
    by (intro sorted_wrt_nth_less) simp_all
  with assms(2,3) have lt: "token (joins w ! k1) < token (joins w ! k2)" by simp
  from assms(3) have "map token (joins w) ! k2 \<in> set (map token (joins w))"
    by (intro nth_mem) simp
  with b assms(3) have "token (joins w ! k2) \<le> uid (self w)" by simp
  with lt show ?thesis by blast
qed

lemma demoViewerOpen_run:
  "demoViewerOpen = run demoEnv (constructor demoOptions [(''change'', [7])] (Some True))
     [CallAddPlugin ''zoom'' (PluginPath ''zoom.js''),
      Click (demoClick 20 False), Click (demoClick 22 False),
      JoinSettles 1 (map Fulfilled demoResolved)]"
  by (simp add: demoViewerOpen_def demoTwoLoads_def demoStart_def run_def)

lemma demoClosed_join:
  "map token (joins demoClosed) = [1, 2]" "map settled (joins demoClosed) = [False, True]"
  "map (length \<circ> promiseArray) (joins demoClosed) = [3, 3]"
  by (simp_all add: demoClosed_def demoTwoLoads_def demoResolved_def run_def demo_defs
      method_defs Let_def)

lemma gateCall_fulfilled:
  assumes "k < length (joins w)" and "\<not> settled (joins w ! k)"
    and "length its = length (promiseArray (joins w ! k))"
  shows "gateCall k (map Fulfilled its) w =
     (if shouldOpen (self w)
      then Some (mainModuleOf its, token (joins w ! k), merged k its w) else None)"
proof -
  have "promiseAll (map Fulfilled its) = Some its" by (simp add: promiseAll_Some)
  moreover have "shouldOpen (self (merged k its w)) = shouldOpen (self w)"
    by (simp add: merged_def merge_frame)
  ultimately show ?thesis using assms by (simp add: gateCall_def Let_def)
qed

lemma demoTwoLoads_opens:
  "length (viewers (step demoEnv demoTwoLoads (JoinSettles 1 (map Fulfilled demoResolved)))) = 1"
  by (simp add: demoTwoLoads_def demoResolved_def run_def demo_defs method_defs Let_def)

text \<open>
  C1. \<^verbatim>\<open>_openPhotoswipe\<close> is called in one place, the callback of a join, after the test
  of \<^verbatim>\<open>shouldOpen\<close> (lines 185 to 188). So at every call the flag is true, and a call
  whose token is not the current one, or that finds the slot occupied, ends at the first
  or at the second \<^verbatim>\<open>return\<close>: no error, no viewer, the slot and \<^verbatim>\<open>this.pswp\<close> as
  they were. When the callback finds the flag false it makes no call. Hence a join
  that settles with a token that is not the current one, or with the flag false, or with
  the slot occupied, adds no viewer and leaves the slot alone, and an event adds a viewer
  only if it is a join that settles fulfilled with the current token, the flag true and the
  slot empty. On every run from a new instance the tokens of the joins grow in the order
  of the calls of \<^verbatim>\<open>preload\<close> and none is above \<^verbatim>\<open>_uid\<close>: of two loads the first has
  a stale token once the second is requested, and its join adds no viewer whenever it
  settles, before or after the join of the second.
\<close>

theorem openPhotoswipe_admission:
  "(\<forall>m t w1. gateCall k outs w = Some (m, t, w1) \<longrightarrow>
      settle k outs w = snd (openPhotoswipe m t w1) \<and>
      t = token (joins w ! k) \<and> shouldOpen (self w1) \<and> uid (self w1) = uid (self w) \<and>
      window_pswp w1 = window_pswp w \<and> viewers w1 = viewers w \<and>
      (t \<noteq> uid (self w1) \<or> \<not> shouldOpen (self w1) \<or> window_pswp w1 \<noteq> None \<longrightarrow>
         (fst (openPhotoswipe m t w1) = Cancelled \<or> fst (openPhotoswipe m t w1) = AlreadyOpen) \<and>
         viewers (snd (openPhotoswipe m t w1)) = viewers w1 \<and>
         window_pswp (snd (openPhotoswipe m t w1)) = window_pswp w1 \<and>
         pswp (self (snd (openPhotoswipe m t w1))) = pswp (self w1))) \<and>
   (gateCall k outs w = None \<longrightarrow>
      length (viewers (settle k outs w)) = length (viewers w) \<and>
      window_pswp (settle k outs w) = window_pswp w \<and>
      pswp (self (settle k outs w)) = pswp (self w)) \<and>
   (token (joins w ! k) \<noteq> uid (self w) \<or> \<not> shouldOpen (self w) \<or> window_pswp w \<noteq> None \<longrightarrow>
      length (viewers (settle k outs w)) = length (viewers w) \<and>
      window_pswp (settle k outs w) = window_pswp w \<and>
      pswp (self (settle k outs w)) = pswp (self w)) \<and>
   (\<forall>e. length (viewers (step ev w e)) \<noteq> length (viewers w) \<longrightarrow>
      (\<exists>k' outs'. e = JoinSettles k' outs' \<and> k' < length (joins w) \<and>
          \<not> settled (joins w ! k') \<and> token (joins w ! k') = uid (self w) \<and>
          shouldOpen (self w) \<and> window_pswp w = None \<and> Rejected \<notin> set outs')) \<and>
   (w = run ev (constructor opts ls online) evs \<longrightarrow>
      (\<forall>k1 k2. k1 < k2 \<and> k2 < length (joins w) \<longrightarrow>
         token (joins w ! k1) < token (joins w ! k2) \<and>
         token (joins w ! k2) \<le> uid (self w) \<and>
         length (viewers (settle k1 outs w)) = length (viewers w) \<and>
         window_pswp (settle k1 outs w) = window_pswp w \<and>
         pswp (self (settle k1 outs w)) = pswp (self w)))"
proof (intro conjI allI impI)
  fix m t w1
  assume c: "gateCall k outs w = Some (m, t, w1)"
  from gateCall_Some [OF c] obtain its where its: "outs = map Fulfilled its"
    "k < length (joins w)" "\<not> settled (joins w ! k)"
    "length its = length (promiseArray (joins w ! k))" "shouldOpen (self w)"
    "m = mainModuleOf its" "t = token (joins w ! k)" "w1 = merged k its w" by blast
  show "settle k outs w = snd (openPhotoswipe m t w1)"
    using settle_fulfilled [OF its(2-4)] its(5) by (simp add: its(1,6,7,8))
  show "t = token (joins w ! k)" by (rule its(7))
  show flag: "shouldOpen (self w1)" using its(5) by (simp add: its(8) merged_def merge_frame)
  show "uid (self w1) = uid (self w)" by (simp add: its(8) merged_def merge_frame)
  show "window_pswp w1 = window_pswp w" by (simp add: its(8) merged_def)
  show "viewers w1 = viewers w" by (simp add: its(8) merged_def)
  assume "t \<noteq> uid (self w1) \<or> \<not> shouldOpen (self w1) \<or> window_pswp w1 \<noteq> None"
  with flag have r: "(t \<noteq> uid (self w1) \<and> shouldOpen (self w1)) \<or> window_pswp w1 \<noteq> None"
    by blast
  note rej = openPhotoswipe_rejected [OF r, of m]
  from rej show "fst (openPhotoswipe m t w1) = Cancelled \<or> fst (openPhotoswipe m t w1) = AlreadyOpen"
    by blast
  from rej show "viewers (snd (openPhotoswipe m t w1)) = viewers w1" by blast
  from rej show "window_pswp (snd (openPhotoswipe m t w1)) = window_pswp w1" by blast
  from rej show "pswp (self (snd (openPhotoswipe m t w1))) = pswp (self w1)" by blast
next
  assume n: "gateCall k outs w = None"
  from gateCall_None [OF n] show "length (viewers (settle k outs w)) = length (viewers w)"
    by simp
  from gateCall_None [OF n] show "window_pswp (settle k outs w) = window_pswp w" by blast
  from gateCall_None [OF n] show "pswp (self (settle k outs w)) = pswp (self w)" by blast
next
  assume h: "token (joins w ! k) \<noteq> uid (self w) \<or> \<not> shouldOpen (self w) \<or>
    window_pswp w \<noteq> None"
  from settle_not_admitted [OF h]
  show "length (viewers (settle k outs w)) = length (viewers w)" by blast
  from settle_not_admitted [OF h]
  show "window_pswp (settle k outs w) = window_pswp w" by blast
  from settle_not_admitted [OF h]
  show "pswp (self (settle k outs w)) = pswp (self w)" by blast
next
  fix e
  assume "length (viewers (step ev w e)) \<noteq> length (viewers w)"
  from step_adds_viewer [OF this]
  show "\<exists>k' outs'. e = JoinSettles k' outs' \<and> k' < length (joins w) \<and>
          \<not> settled (joins w ! k') \<and> token (joins w ! k') = uid (self w) \<and>
          shouldOpen (self w) \<and> window_pswp w = None \<and> Rejected \<notin> set outs'" .
next
  fix k1 k2
  assume w: "w = run ev (constructor opts ls online) evs"
    and k: "k1 < k2 \<and> k2 < length (joins w)"
  from run_tokens_increase [OF w, of k1 k2] k
  have lt: "token (joins w ! k1) < token (joins w ! k2)"
    and le: "token (joins w ! k2) \<le> uid (self w)" by blast+
  show "token (joins w ! k1) < token (joins w ! k2)" by (rule lt)
  show "token (joins w ! k2) \<le> uid (self w)" by (rule le)
  from lt le have "token (joins w ! k1) \<noteq> uid (self w) \<or> \<not> shouldOpen (self w) \<or>
    window_pswp w \<noteq> None" by simp
  note st = settle_not_admitted [OF this, of outs]
  from st show "length (viewers (settle k1 outs w)) = length (viewers w)" by blast
  from st show "window_pswp (settle k1 outs w) = window_pswp w" by blast
  from st show "pswp (self (settle k1 outs w)) = pswp (self w)" by blast
qed

theorem openPhotoswipe_admission_witness:
  "gateCall 0 (map Fulfilled demoResolved) demoTwoLoads
     = Some (ModuleNamespace (Some 0), 1, merged 0 demoResolved demoTwoLoads) \<and>
   uid (self (merged 0 demoResolved demoTwoLoads)) = 2 \<and>
   shouldOpen (self (merged 0 demoResolved demoTwoLoads)) \<and>
   fst (openPhotoswipe (ModuleNamespace (Some 0)) 1 (merged 0 demoResolved demoTwoLoads))
     = Cancelled \<and>
   length (viewers (settle 0 (map Fulfilled demoResolved) demoTwoLoads)) = 0 \<and>
   window_pswp (settle 0 (map Fulfilled demoResolved) demoTwoLoads) = None \<and>
   \<not> shouldOpen (self demoClosed) \<and>
   gateCall 0 (map Fulfilled demoResolved) demoClosed = None \<and>
   length (viewers (settle 0 (map Fulfilled demoResolved) demoClosed)) = 1 \<and>
   window_pswp (settle 0 (map Fulfilled demoResolved) demoClosed) = None \<and>
   length (viewers (step demoEnv demoTwoLoads (JoinSettles 1 (map Fulfilled demoResolved)))) = 1 \<and>
   token (joins demoTwoLoads ! 1) = uid (self demoTwoLoads) \<and>
   shouldOpen (self demoTwoLoads) \<and> window_pswp demoTwoLoads = None \<and>
   token (joins demoViewerOpen ! 0) < token (joins demoViewerOpen ! 1) \<and>
   length (viewers (settle 0 (map Fulfilled demoResolved) demoViewerOpen)) = 1 \<and>
   window_pswp (settle 0 (map Fulfilled demoResolved) demoViewerOpen) = Some 0"
proof -
  have j: "0 < length (joins demoTwoLoads)" "token (joins demoTwoLoads ! 0) = 1"
    "\<not> settled (joins demoTwoLoads ! 0)"
    "length demoResolved = length (promiseArray (joins demoTwoLoads ! 0))"
    using demoTwoLoads_eq(3,4,5) by (auto simp: map_eq_Cons_conv demoResolved_def)
  have jc: "0 < length (joins demoClosed)" "\<not> settled (joins demoClosed ! 0)"
    "length demoResolved = length (promiseArray (joins demoClosed ! 0))"
    using demoClosed_join by (auto simp: map_eq_Cons_conv demoResolved_def)
  have jv: "1 < length (joins demoViewerOpen)"
    using demoViewerOpen_eq(3) by (auto simp: map_eq_Cons_conv)
  note t1 = openPhotoswipe_admission
    [where k = 0 and outs = "map Fulfilled demoResolved" and w = demoTwoLoads and ev = demoEnv]
  note called = t1 [THEN conjunct1, rule_format]
  note stale = t1 [THEN conjunct2, THEN conjunct2, THEN conjunct1, rule_format]
  note adds = t1 [THEN conjunct2, THEN conjunct2, THEN conjunct2, THEN conjunct1, rule_format,
      of "JoinSettles 1 (map Fulfilled demoResolved)"]
  note t2 = openPhotoswipe_admission
    [where k = 0 and outs = "map Fulfilled demoResolved" and w = demoClosed and ev = demoEnv]
  note uncalled = t2 [THEN conjunct2, THEN conjunct1, rule_format]
  note t3 = openPhotoswipe_admission
    [where k = 0 and outs = "map Fulfilled demoResolved" and w = demoViewerOpen
      and ev = demoEnv]
  note race = t3 [THEN conjunct2, THEN conjunct2, THEN conjunct2, THEN conjunct2, rule_format,
      OF demoViewerOpen_run, of 0 1]
  have c: "gateCall 0 (map Fulfilled demoResolved) demoTwoLoads
     = Some (ModuleNamespace (Some 0), 1, merged 0 demoResolved demoTwoLoads)"
    using gateCall_fulfilled [OF j(1,3,4)] j(2) demoTwoLoads_eq(2)
    by (simp add: demoResolved_def mainModuleOf_def)
  from called [OF c] demoTwoLoads_eq(1)
  have c1: "uid (self (merged 0 demoResolved demoTwoLoads)) = 2"
    and c2: "shouldOpen (self (merged 0 demoResolved demoTwoLoads))"
    by simp_all
  from c1 c2 have c4: "fst (openPhotoswipe (ModuleNamespace (Some 0)) 1
      (merged 0 demoResolved demoTwoLoads)) = Cancelled"
    by (simp add: openPhotoswipe_stale)
  have "token (joins demoTwoLoads ! 0) \<noteq> uid (self demoTwoLoads) \<or>
      \<not> shouldOpen (self demoTwoLoads) \<or> window_pswp demoTwoLoads \<noteq> None"
    by (simp add: j(2) demoTwoLoads_eq(1))
  from stale [OF this]
  have d: "length (viewers (settle 0 (map Fulfilled demoResolved) demoTwoLoads)) = 0 \<and>
      window_pswp (settle 0 (map Fulfilled demoResolved) demoTwoLoads) = None"
    by (simp add: demoTwoLoads_eq)
  have n: "gateCall 0 (map Fulfilled demoResolved) demoClosed = None"
    using gateCall_fulfilled [OF jc] demoClosed_eq(2) by simp
  from uncalled [OF n]
  have e: "length (viewers (settle 0 (map Fulfilled demoResolved) demoClosed)) = 1 \<and>
      window_pswp (settle 0 (map Fulfilled demoResolved) demoClosed) = None"
    by (simp add: demoClosed_eq)
  have "length (viewers (step demoEnv demoTwoLoads (JoinSettles 1 (map Fulfilled demoResolved))))
      \<noteq> length (viewers demoTwoLoads)"
    using demoTwoLoads_opens by (simp add: demoTwoLoads_eq)
  from adds [OF this]
  have f: "token (joins demoTwoLoads ! 1) = uid (self demoTwoLoads) \<and>
      shouldOpen (self demoTwoLoads) \<and> window_pswp demoTwoLoads = None"
    by auto
  have "(0::nat) < 1 \<and> 1 < length (joins demoViewerOpen)" using jv by simp
  from race [OF this]
  have g: "token (joins demoViewerOpen ! 0) < token (joins demoViewerOpen ! 1) \<and>
      length (viewers (settle 0 (map Fulfilled demoResolved) demoViewerOpen)) = 1 \<and>
      window_pswp (settle 0 (map Fulfilled demoResolved) demoViewerOpen) = Some 0"
    by (simp add: demoViewerOpen_eq)
  from c c1 c2 c4 d e f g demoClosed_eq(2) n demoTwoLoads_opens show ?thesis by simp
qed

end
